theory Spec2Isabelle
  imports Main "HOL-Library.Word"
begin

section \<open>Machine integers and pointers\<close>

text \<open>
  Go's \<open>uint\<close> is the 64-bit unsigned machine word of the usual server targets; its
  arithmetic wraps around. \<open>int(x)\<close> on a \<open>uint\<close> reinterprets the bits as two's
  complement, which is \<open>sint\<close>.
\<close>

type_synonym uint = "64 word"
type_synonym uint32 = "32 word"
type_synonym uint64 = "64 word"
type_synonym int32 = "32 word"

text \<open>
  A \<open>*list.Element\<close> is the identity of an allocated list element, and a \<open>*Client\<close>
  the address of an allocated record.
\<close>

type_synonym elem = nat
type_synonym addr = nat

section \<open>The indexed ordered list (\<open>quickList\<close>)\<close>

text \<open>
  \<open>index\<close> is the Go map from key to element. \<open>rows\<close> is the \<open>container/list\<close> list
  read from front to back: every element with the \<open>Value\<close> it holds. \<open>allocated\<close> counts
  the elements \<open>PushBack\<close> has created so far, so that it is the identity of the next one.
\<close>

record 'v quickList =
  index :: "string \<rightharpoonup> elem"
  rows :: "(elem \<times> 'v) list"
  allocated :: nat

definition newQuickList :: "'v quickList" where
  "newQuickList = \<lparr>index = Map.empty, rows = [], allocated = 0\<rparr>"

text \<open>\<open>rows.Len()\<close>, a Go \<open>int\<close>.\<close>

definition Len :: "'v quickList \<Rightarrow> int" where
  "Len q = int (length (rows q))"

text \<open>\<open>e.Value = value\<close> on the element \<open>e\<close>.\<close>

definition setValue :: "elem \<Rightarrow> 'v \<Rightarrow> (elem \<times> 'v) list \<Rightarrow> (elem \<times> 'v) list" where
  "setValue e v rs = map (\<lambda>(h, w). if h = e then (h, v) else (h, w)) rs"

text \<open>\<open>rows.PushBack(value)\<close>: a new element at the back; the element is returned.\<close>

definition PushBack :: "'v \<Rightarrow> 'v quickList \<Rightarrow> elem \<times> 'v quickList" where
  "PushBack v q =
     (allocated q, q\<lparr>rows := rows q @ [(allocated q, v)], allocated := Suc (allocated q)\<rparr>)"

text \<open>\<open>rows.Remove(elem)\<close>: unlinks the element from the list.\<close>

definition Remove :: "elem \<Rightarrow> (elem \<times> 'v) list \<Rightarrow> (elem \<times> 'v) list" where
  "Remove e rs = filter (\<lambda>(h, w). h \<noteq> e) rs"

definition quickList_set :: "string \<Rightarrow> 'v \<Rightarrow> 'v quickList \<Rightarrow> 'v quickList" where
  "quickList_set key v q =
     (case index q key of
        Some e \<Rightarrow> q\<lparr>rows := setValue e v (rows q)\<rparr>
      | None \<Rightarrow>
          (let (el, q') = PushBack v q
           in q'\<lparr>index := (index q')(key \<mapsto> el)\<rparr>))"

text \<open>\<open>remove\<close> returns the element that was indexed under the key (\<open>nil\<close> is \<open>None\<close>).\<close>

definition quickList_remove :: "string \<Rightarrow> 'v quickList \<Rightarrow> elem option \<times> 'v quickList" where
  "quickList_remove key q =
     (let el = index q key;
          q' = (case el of Some e \<Rightarrow> q\<lparr>rows := Remove e (rows q)\<rparr> | None \<Rightarrow> q)
      in (el, q'\<lparr>index := (index q')(key := None)\<rparr>))"

definition quickList_getByID :: "string \<Rightarrow> 'v quickList \<Rightarrow> elem option" where
  "quickList_getByID key q = index q key"

text \<open>\<open>l.Value\<close> of an element of the list.\<close>

definition elemValue :: "'v quickList \<Rightarrow> elem \<Rightarrow> 'v option" where
  "elemValue q e = map_of (rows q) e"

text \<open>
  The loop of \<open>iterate\<close>. \<open>i\<close> is the \<open>uint\<close> counter, the list argument is what is left
  from the current element on, and the last argument is the state the callback works on
  (the callbacks of the source append to a result slice and write to records).
\<close>

fun iterate_loop ::
  "(elem \<times> 'v \<Rightarrow> 's \<Rightarrow> 's) \<Rightarrow> uint \<Rightarrow> uint \<Rightarrow> uint \<Rightarrow> (elem \<times> 'v) list \<Rightarrow> 's \<Rightarrow> 's" where
  "iterate_loop fn offset n i [] s = s"
| "iterate_loop fn offset n i (e # es) s =
     (let s' = (if i \<ge> offset \<and> i < offset + n then fn e s else s)
      in if i = offset + n then s' else iterate_loop fn offset n (i + 1) es s')"

definition quickList_iterate ::
  "(elem \<times> 'v \<Rightarrow> 's \<Rightarrow> 's) \<Rightarrow> uint \<Rightarrow> uint \<Rightarrow> 'v quickList \<Rightarrow> 's \<Rightarrow> 's" where
  "quickList_iterate fn offset n q s =
     (if Len q < sint offset then s else iterate_loop fn offset n 0 (rows q) s)"

definition getOffsetN :: "uint \<Rightarrow> uint \<Rightarrow> uint \<times> uint" where
  "getOffsetN page pageSize = ((page - 1) * pageSize, pageSize)"

section \<open>Records of the administration store\<close>

text \<open>
  \<open>time.Time\<close> as \<open>timestamppb.New\<close> reads it (\<open>t.Unix()\<close>, an \<open>int64\<close>, and
  \<open>t.Nanosecond()\<close>, an \<open>int\<close>), and the protobuf \<open>Timestamp\<close> it builds.
\<close>

record Time =
  Unix :: "64 word"
  Nanosecond :: "64 word"

record Timestamp =
  Seconds :: "64 word"
  Nanos :: "32 word"

definition timestamppb_New :: "Time \<Rightarrow> Timestamp" where
  "timestamppb_New t = \<lparr>Seconds = Unix t, Nanos = ucast (Nanosecond t)\<rparr>"

text \<open>
  Modelled from the spec: the declaration of \<open>server.ClientOptions\<close> is not under src/.
  The fields are the identity and session parameters of a connection that
  \<open>newClientInfo\<close> reads. Keep-alive, maximum in-flight count and receive maximum are
  16-bit, as MQTT has them; the session expiry is assigned without conversion to the
  \<open>uint32\<close> field of the record.
\<close>

record ClientOptions =
  ClientID :: string
  Username :: string
  KeepAlive :: "16 word"
  SessionExpiry :: uint32
  MaxInflight :: "16 word"
  ReceiveMax :: "16 word"

text \<open>
  Modelled from the spec: the declaration of the \<open>server.Client\<close> interface is not
  under src/. A connection supplies identity and session parameters, protocol version,
  endpoints and connect timestamp; these are the results of
  \<open>ClientOptions()\<close>, \<open>Version()\<close> (a byte), \<open>Connection().RemoteAddr().String()\<close>,
  \<open>Connection().LocalAddr().String()\<close> and \<open>ConnectedAt()\<close>.
\<close>

record server_Client =
  ClientOptions :: ClientOptions
  Version :: "8 word"
  RemoteAddr :: string
  LocalAddr :: string
  ConnectedAt :: Time

text \<open>
  Modelled from the spec: the declaration of \<open>ClientStats\<close> is not under src/. These
  are the counters that \<open>fillClientInfo\<close> reads of what the statistics reader returns:
  \<open>SubscriptionStats.SubscriptionsCurrent\<close>, \<open>SubscriptionStats.SubscriptionsTotal\<close>,
  \<open>PacketStats.BytesReceived.Total\<close>, \<open>PacketStats.ReceivedTotal.Total\<close>,
  \<open>PacketStats.BytesSent.Total\<close>, \<open>PacketStats.SentTotal.Total\<close>,
  \<open>MessageStats.GetDroppedTotal()\<close>, \<open>MessageStats.InflightCurrent\<close> and
  \<open>MessageStats.QueuedCurrent\<close>, all 64-bit counters.
\<close>

record ClientStats =
  SubscriptionsCurrent :: uint64
  SubscriptionsTotal :: uint64
  BytesReceived_Total :: uint64
  ReceivedTotal_Total :: uint64
  BytesSent_Total :: uint64
  SentTotal_Total :: uint64
  GetDroppedTotal :: uint64
  InflightCurrent :: uint64
  QueuedCurrent :: uint64

text \<open>
  Modelled from the spec: the declaration of \<open>gmqtt.Subscription\<close> is not under src/.
  This is what \<open>addSubscription\<close> reads of it: the full topic filter, which is the
  result of \<open>GetFullTopicName()\<close>, and the fields \<open>ID\<close>, \<open>QoS\<close>, \<open>NoLocal\<close>,
  \<open>RetainAsPublished\<close> and \<open>RetainHandling\<close> (the two small ones are bytes).
\<close>

record gmqtt_Subscription =
  GetFullTopicName :: string
  ID :: uint32
  QoS :: "8 word"
  NoLocal :: bool
  RetainAsPublished :: bool
  RetainHandling :: "8 word"

text \<open>
  Modelled from the spec: the declaration of the listing record \<open>Subscription\<close> (generated
  protobuf code) is not under src/. The fields are the ones \<open>addSubscription\<close> fills.
\<close>

record Subscription =
  TopicName :: string
  Id :: uint32
  Qos :: uint32
  NoLocal :: bool
  RetainAsPublished :: bool
  RetainHandling :: uint32
  ClientId :: string

text \<open>
  Modelled from the spec: the declaration of \<open>Client\<close> (generated protobuf code) is not
  under src/. The fields are those of the spec's Client record that store.go writes:
  identity, endpoints, session parameters, the two timestamps (\<open>nil\<close> is \<open>None\<close>) and
  the stats block.
\<close>

record Client =
  ClientId :: string
  Username :: string
  KeepAlive :: int32
  Version :: int32
  RemoteAddr :: string
  LocalAddr :: string
  ConnectedAt :: "Timestamp option"
  DisconnectedAt :: "Timestamp option"
  SessionExpiry :: uint32
  MaxInflight :: uint32
  MaxQueue :: uint32
  SubscriptionsCurrent :: uint32
  SubscriptionsTotal :: uint32
  PacketsReceivedBytes :: uint64
  PacketsReceivedNums :: uint64
  PacketsSendBytes :: uint64
  PacketsSendNums :: uint64
  MessageDropped :: uint64
  InflightLen :: uint32
  QueueLen :: uint32

datatype error = ErrNotFound

section \<open>The store\<close>

text \<open>
  \<open>clientList\<close> holds \<open>*Client\<close> values: addresses into \<open>heap\<close>, the memory cells of the
  \<open>Client\<close> records, where \<open>nextAddr\<close> is the address the next \<open>&Client{...}\<close> gets. A cell
  that was never allocated reads as the zero record and nothing points to it. The
  subscription records are never written after their creation and are held by value.
  \<open>statsReader\<close> is \<open>GetClientStats\<close> of the statistics reader: \<open>None\<close> is \<open>ok = false\<close>.
  The fields \<open>config\<close> and \<open>subscriptionService\<close> are never read in the source, and the two
  mutexes have no sequential content.
\<close>

record store =
  clientList :: "addr quickList"
  subscriptions :: "Subscription quickList"
  statsReader :: "string \<Rightarrow> ClientStats option"
  heap :: "addr \<Rightarrow> Client"
  nextAddr :: addr

definition zeroClient :: Client where
  "zeroClient = \<lparr>ClientId = [], Username = [], KeepAlive = 0, Version = 0, RemoteAddr = [],
     LocalAddr = [], ConnectedAt = None, DisconnectedAt = None, SessionExpiry = 0,
     MaxInflight = 0, MaxQueue = 0, SubscriptionsCurrent = 0, SubscriptionsTotal = 0,
     PacketsReceivedBytes = 0, PacketsReceivedNums = 0, PacketsSendBytes = 0,
     PacketsSendNums = 0, MessageDropped = 0, InflightLen = 0, QueueLen = 0\<rparr>"

definition newStore :: "(string \<Rightarrow> ClientStats option) \<Rightarrow> store" where
  "newStore sr = \<lparr>clientList = newQuickList, subscriptions = newQuickList,
     statsReader = sr, heap = (\<lambda>_. zeroClient), nextAddr = 0\<rparr>"

definition subscriptionKey :: "string \<Rightarrow> string \<Rightarrow> string" where
  "subscriptionKey clientID topicName = clientID @ ''_'' @ topicName"

text \<open>The composite literal of \<open>addSubscription\<close>: the record \<open>subInfo\<close>.\<close>

definition subInfo :: "string \<Rightarrow> gmqtt_Subscription \<Rightarrow> Subscription" where
  "subInfo clientID sub =
     \<lparr>TopicName = GetFullTopicName sub,
      Id = ID sub,
      Qos = ucast (QoS sub),
      NoLocal = gmqtt_Subscription.NoLocal sub,
      RetainAsPublished = gmqtt_Subscription.RetainAsPublished sub,
      RetainHandling = ucast (gmqtt_Subscription.RetainHandling sub),
      Subscription.ClientId = clientID\<rparr>"

definition addSubscription :: "string \<Rightarrow> gmqtt_Subscription \<Rightarrow> store \<Rightarrow> store" where
  "addSubscription clientID sub s =
     (let key = subscriptionKey clientID (GetFullTopicName sub)
      in s\<lparr>subscriptions := quickList_set key (subInfo clientID sub) (subscriptions s)\<rparr>)"

definition removeSubscription :: "string \<Rightarrow> string \<Rightarrow> store \<Rightarrow> store" where
  "removeSubscription clientID topicName s =
     s\<lparr>subscriptions :=
         snd (quickList_remove (subscriptionKey clientID topicName) (subscriptions s))\<rparr>"

text \<open>The composite literal of \<open>newClientInfo\<close>; the fields it leaves out are zero.\<close>

definition newClientInfo :: "server_Client \<Rightarrow> Client" where
  "newClientInfo client =
     (let clientOptions = ClientOptions client
      in zeroClient\<lparr>
           ClientId := ClientID clientOptions,
           Username := ClientOptions.Username clientOptions,
           KeepAlive := ucast (ClientOptions.KeepAlive clientOptions),
           Version := ucast (server_Client.Version client),
           RemoteAddr := server_Client.RemoteAddr client,
           LocalAddr := server_Client.LocalAddr client,
           ConnectedAt := Some (timestamppb_New (server_Client.ConnectedAt client)),
           DisconnectedAt := None,
           SessionExpiry := ClientOptions.SessionExpiry clientOptions,
           MaxInflight := ucast (ClientOptions.MaxInflight clientOptions),
           MaxQueue := ucast (ReceiveMax clientOptions)\<rparr>)"

text \<open>\<open>&Client{...}\<close>: the record is put into a new cell, whose address is the pointer.\<close>

definition allocClient :: "Client \<Rightarrow> store \<Rightarrow> addr \<times> store" where
  "allocClient r s =
     (nextAddr s, s\<lparr>heap := (heap s)(nextAddr s := r), nextAddr := Suc (nextAddr s)\<rparr>)"

definition addClient :: "server_Client \<Rightarrow> store \<Rightarrow> store" where
  "addClient client s =
     (let (c, s') = allocClient (newClientInfo client) s
      in s'\<lparr>clientList := quickList_set (Client.ClientId (heap s' c)) c (clientList s')\<rparr>)"

text \<open>
  \<open>now\<close> is what \<open>timestamppb.Now()\<close> returns at the call. An element that is indexed
  but not linked has no value in the list; no state that the operations build has one.
\<close>

definition setClientDisconnected :: "string \<Rightarrow> Timestamp \<Rightarrow> store \<Rightarrow> store" where
  "setClientDisconnected clientID now s =
     (case quickList_getByID clientID (clientList s) of
        None \<Rightarrow> s
      | Some l \<Rightarrow>
          (case elemValue (clientList s) l of
             None \<Rightarrow> s
           | Some c \<Rightarrow> s\<lparr>heap := (heap s)(c := (heap s c)\<lparr>DisconnectedAt := Some now\<rparr>)\<rparr>))"

definition removeClient :: "string \<Rightarrow> store \<Rightarrow> store" where
  "removeClient clientID s =
     s\<lparr>clientList := snd (quickList_remove clientID (clientList s))\<rparr>"

definition getClientByIDLocked :: "string \<Rightarrow> store \<Rightarrow> addr option" where
  "getClientByIDLocked clientID s =
     (case quickList_getByID clientID (clientList s) of
        Some i \<Rightarrow> elemValue (clientList s) i
      | None \<Rightarrow> None)"

text \<open>The nine assignments at the end of \<open>fillClientInfo\<close>, on the record \<open>c\<close>.\<close>

definition fillStats :: "ClientStats \<Rightarrow> Client \<Rightarrow> Client" where
  "fillStats sts c =
     c\<lparr>SubscriptionsCurrent := ucast (ClientStats.SubscriptionsCurrent sts),
       SubscriptionsTotal := ucast (ClientStats.SubscriptionsTotal sts),
       PacketsReceivedBytes := BytesReceived_Total sts,
       PacketsReceivedNums := ReceivedTotal_Total sts,
       PacketsSendBytes := BytesSent_Total sts,
       PacketsSendNums := SentTotal_Total sts,
       MessageDropped := GetDroppedTotal sts,
       InflightLen := ucast (InflightCurrent sts),
       QueueLen := ucast (QueuedCurrent sts)\<rparr>"

text \<open>\<open>fillClientInfo\<close> writes through the pointer: the cell it points to changes.\<close>

definition fillClientInfo ::
  "addr option \<Rightarrow> (string \<Rightarrow> ClientStats option) \<Rightarrow> (addr \<Rightarrow> Client) \<Rightarrow> (addr \<Rightarrow> Client)" where
  "fillClientInfo c stsReader h =
     (case c of
        None \<Rightarrow> h
      | Some p \<Rightarrow>
          (case stsReader (Client.ClientId (h p)) of
             None \<Rightarrow> h
           | Some sts \<Rightarrow> h(p := fillStats sts (h p))))"

definition GetClientByID :: "string \<Rightarrow> store \<Rightarrow> addr option \<times> store" where
  "GetClientByID clientID s =
     (let c = getClientByIDLocked clientID s
      in (c, s\<lparr>heap := fillClientInfo c (statsReader s) (heap s)\<rparr>))"

text \<open>
  The callback of \<open>GetClients\<close> works on the result slice \<open>rs\<close> and on the heap: it fills
  the record behind the element's pointer and appends the pointer.
\<close>

definition GetClients_fn ::
  "(string \<Rightarrow> ClientStats option) \<Rightarrow> elem \<times> addr \<Rightarrow> addr list \<times> (addr \<Rightarrow> Client)
     \<Rightarrow> addr list \<times> (addr \<Rightarrow> Client)" where
  "GetClients_fn stsReader el st =
     (let c = snd el;
          h = fillClientInfo (Some c) stsReader (snd st)
      in (fst st @ [snd el], h))"

definition GetClients ::
  "uint \<Rightarrow> uint \<Rightarrow> store \<Rightarrow> (addr list \<times> uint32 \<times> error option) \<times> store" where
  "GetClients page pageSize s =
     (let (offset, n) = getOffsetN page pageSize;
          (rs, h) = quickList_iterate (GetClients_fn (statsReader s)) offset n
                      (clientList s) ([], heap s)
      in ((rs, word_of_int (Len (clientList s)), None), s\<lparr>heap := h\<rparr>))"

definition GetSubscriptions_fn ::
  "elem \<times> Subscription \<Rightarrow> Subscription list \<Rightarrow> Subscription list" where
  "GetSubscriptions_fn el rs = rs @ [snd el]"

definition GetSubscriptions ::
  "uint \<Rightarrow> uint \<Rightarrow> store \<Rightarrow> Subscription list \<times> uint32 \<times> error option" where
  "GetSubscriptions page pageSize s =
     (let (offset, n) = getOffsetN page pageSize;
          rs = quickList_iterate GetSubscriptions_fn offset n (subscriptions s) []
      in (rs, word_of_int (Len (subscriptions s)), None))"

section \<open>Observations on the list\<close>

text \<open>
  The statements below read a list through these observations. \<open>handles\<close> is the order
  of the elements, \<open>entriesOf\<close> the linked elements a key is indexed to, \<open>valueOf\<close> what
  \<open>getByID\<close> followed by \<open>.Value\<close> reads, \<open>positionOf\<close> the place of the key's element
  counted from the front.
\<close>

definition handles :: "'v quickList \<Rightarrow> elem list" where
  "handles q = map fst (rows q)"

definition entriesOf :: "'v quickList \<Rightarrow> string \<Rightarrow> (elem \<times> 'v) list" where
  "entriesOf q key = filter (\<lambda>el. index q key = Some (fst el)) (rows q)"

definition valueOf :: "'v quickList \<Rightarrow> string \<Rightarrow> 'v option" where
  "valueOf q key =
     (case quickList_getByID key q of None \<Rightarrow> None | Some e \<Rightarrow> elemValue q e)"

definition positionOf :: "'v quickList \<Rightarrow> string \<Rightarrow> nat option" where
  "positionOf q key =
     (case index q key of
        None \<Rightarrow> None
      | Some e \<Rightarrow> if e \<in> set (handles q)
                  then Some (length (takeWhile (\<lambda>h. h \<noteq> e) (handles q))) else None)"

text \<open>
  The invariant of the list: the linked elements are pairwise different and were all
  allocated, the index reaches exactly the linked elements, and no two keys share an
  element. So keys and linked elements are in one-to-one correspondence.
\<close>

definition qinv :: "'v quickList \<Rightarrow> bool" where
  "qinv q \<longleftrightarrow>
     distinct (handles q) \<and> (\<forall>e \<in> set (handles q). e < allocated q) \<and>
     ran (index q) = set (handles q) \<and> inj_on (index q) (dom (index q))"

text \<open>A list of three entries, inserted in the order A, B, C.\<close>

definition abcList :: "nat quickList" where
  "abcList = quickList_set ''C'' 3 (quickList_set ''B'' 2 (quickList_set ''A'' 1 newQuickList))"

section \<open>Observations on the store\<close>

text \<open>
  The invariant of the store: the client list satisfies the list invariant, and every
  indexed pointer was allocated and points to a record whose \<open>ClientId\<close> is the key.
\<close>

definition store_inv :: "store \<Rightarrow> bool" where
  "store_inv s \<longleftrightarrow>
     qinv (clientList s) \<and>
     (\<forall>key e c. index (clientList s) key = Some e \<and> (e, c) \<in> set (rows (clientList s))
        \<longrightarrow> c < nextAddr s \<and> Client.ClientId (heap s c) = key)"

text \<open>A record with its stats block blanked: what of a record is not statistics.\<close>

definition withoutStats :: "Client \<Rightarrow> Client" where
  "withoutStats c = c\<lparr>SubscriptionsCurrent := 0, SubscriptionsTotal := 0,
     PacketsReceivedBytes := 0, PacketsReceivedNums := 0, PacketsSendBytes := 0,
     PacketsSendNums := 0, MessageDropped := 0, InflightLen := 0, QueueLen := 0\<rparr>"

text \<open>
  What a read makes of the record in cell \<open>p\<close>: the record with the stats block set
  from the counters that the statistics reader has for the record's client identifier,
  or the record as it is when the reader has none.
\<close>

definition enriched :: "store \<Rightarrow> addr \<Rightarrow> Client" where
  "enriched s p =
     (case statsReader s (Client.ClientId (heap s p)) of
        None \<Rightarrow> heap s p
      | Some sts \<Rightarrow> fillStats sts (heap s p))"

text \<open>
  Example inputs: a connection with a given client identifier, a statistics reader that
  knows nobody, one that knows everybody, and the store after A, B and C connected.
\<close>

definition conn :: "string \<Rightarrow> server_Client" where
  "conn cid = \<lparr>ClientOptions = \<lparr>ClientID = cid, ClientOptions.Username = ''user'',
       ClientOptions.KeepAlive = 60, ClientOptions.SessionExpiry = 3600,
       ClientOptions.MaxInflight = 32, ReceiveMax = 7\<rparr>,
     server_Client.Version = 5, server_Client.RemoteAddr = ''10.0.0.1:5000'',
     server_Client.LocalAddr = ''10.0.0.2:1883'',
     server_Client.ConnectedAt = \<lparr>Unix = 1700000000, Nanosecond = 5\<rparr>\<rparr>"

definition noStats :: "string \<Rightarrow> ClientStats option" where
  "noStats cid = None"

definition liveCounters :: ClientStats where
  "liveCounters = \<lparr>ClientStats.SubscriptionsCurrent = 4, ClientStats.SubscriptionsTotal = 9,
     BytesReceived_Total = 1000, ReceivedTotal_Total = 10, BytesSent_Total = 2000,
     SentTotal_Total = 20, GetDroppedTotal = 1, InflightCurrent = 2, QueuedCurrent = 3\<rparr>"

definition liveStats :: "string \<Rightarrow> ClientStats option" where
  "liveStats cid = Some liveCounters"

text \<open>
  Counters of a long-lived client: it has subscribed \<open>2^32 + 5\<close> times in total, which
  the 64-bit counter of the statistics reader holds.
\<close>

definition bigCounters :: ClientStats where
  "bigCounters = \<lparr>ClientStats.SubscriptionsCurrent = 4,
     ClientStats.SubscriptionsTotal = 4294967301,
     BytesReceived_Total = 1000, ReceivedTotal_Total = 10, BytesSent_Total = 2000,
     SentTotal_Total = 20, GetDroppedTotal = 1, InflightCurrent = 2, QueuedCurrent = 3\<rparr>"

definition bigStats :: "string \<Rightarrow> ClientStats option" where
  "bigStats cid = Some bigCounters"

definition abcStore :: "(string \<Rightarrow> ClientStats option) \<Rightarrow> store" where
  "abcStore sr = addClient (conn ''C'') (addClient (conn ''B'') (addClient (conn ''A'') (newStore sr)))"

text \<open>
  The store after \<open>n\<close> clients with pairwise different identifiers connected: the
  \<open>i\<close>-th identifier is the letter x repeated \<open>i\<close> times.
\<close>

primrec manyClients :: "nat \<Rightarrow> store" where
  "manyClients 0 = newStore noStats"
| "manyClients (Suc n) = addClient (conn (replicate n CHR ''x'')) (manyClients n)"

definition topic :: "string \<Rightarrow> gmqtt_Subscription" where
  "topic t = \<lparr>GetFullTopicName = t, ID = 0, QoS = 1, gmqtt_Subscription.NoLocal = False,
     gmqtt_Subscription.RetainAsPublished = False, gmqtt_Subscription.RetainHandling = 0\<rparr>"

section \<open>The list keeps one element per key\<close>

lemma handles_setValue: "map fst (setValue e v rs) = map fst rs"
  by (induction rs) (auto simp: setValue_def)

lemma map_of_setValue:
  "map_of (setValue e v rs) = (if e \<in> fst ` set rs then (map_of rs)(e \<mapsto> v) else map_of rs)"
  by (induction rs) (auto simp: setValue_def fun_upd_twist)

lemma handles_Remove: "map fst (Remove e rs) = removeAll e (map fst rs)"
  by (induction rs) (auto simp: Remove_def)

lemma qinv_new: "qinv newQuickList"
  by (simp add: qinv_def handles_def newQuickList_def)

lemma qinv_set:
  assumes "qinv q"
  shows "qinv (quickList_set key v q)"
proof (cases "index q key")
  case (Some e)
  then show ?thesis using assms
    by (simp add: quickList_set_def qinv_def handles_def handles_setValue)
next
  case None
  have fresh: "allocated q \<notin> set (handles q)" using assms by (auto simp: qinv_def)
  then have nran: "allocated q \<notin> ran (index q)" using assms by (simp add: qinv_def)
  have ran: "ran ((index q)(key \<mapsto> allocated q)) = insert (allocated q) (ran (index q))"
    using None by simp
  have inj: "inj_on ((index q)(key \<mapsto> allocated q)) (insert key (dom (index q)))"
    using assms nran None
    by (auto simp: qinv_def inj_on_def ran_def dom_def)
  show ?thesis using None assms fresh ran inj
    by (auto simp: quickList_set_def PushBack_def qinv_def handles_def less_Suc_eq)
qed

lemma qinv_remove:
  assumes "qinv q"
  shows "qinv (snd (quickList_remove key q))"
proof (cases "index q key")
  case None
  then have "(index q)(key := None) = index q" by (simp add: fun_upd_idem)
  then show ?thesis using None assms
    by (simp add: quickList_remove_def qinv_def handles_def)
next
  case (Some e)
  have inj: "inj_on (index q) (dom (index q))" using assms by (simp add: qinv_def)
  have "ran ((index q)(key := None)) = ran (index q) - {e}"
  proof (rule set_eqI)
    fix x
    show "x \<in> ran ((index q)(key := None)) \<longleftrightarrow> x \<in> ran (index q) - {e}"
    proof
      assume "x \<in> ran ((index q)(key := None))"
      then obtain k where k: "k \<noteq> key" "index q k = Some x"
        by (auto simp: ran_def split: if_splits)
      then have "x \<noteq> e" using inj Some by (auto simp: inj_on_def dom_def)
      then show "x \<in> ran (index q) - {e}" using k by (auto simp: ran_def)
    next
      assume "x \<in> ran (index q) - {e}"
      then obtain k where k: "index q k = Some x" and "x \<noteq> e" by (auto simp: ran_def)
      then have "k \<noteq> key" using Some by auto
      then show "x \<in> ran ((index q)(key := None))" using k by (auto simp: ran_def)
    qed
  qed
  moreover have "inj_on ((index q)(key := None)) (dom (index q) - {key})"
    using inj by (auto simp: inj_on_def)
  ultimately show ?thesis using Some assms
    by (auto simp: quickList_remove_def qinv_def handles_def handles_Remove distinct_removeAll)
qed


lemma set_present:
  "index q key = Some e \<Longrightarrow> quickList_set key v q = q\<lparr>rows := setValue e v (rows q)\<rparr>"
  by (simp add: quickList_set_def)

lemma set_absent:
  "index q key = None \<Longrightarrow>
   quickList_set key v q =
     q\<lparr>rows := rows q @ [(allocated q, v)], allocated := Suc (allocated q),
       index := (index q)(key \<mapsto> allocated q)\<rparr>"
  by (simp add: quickList_set_def PushBack_def)

lemma set_index_key: "index (quickList_set key v q) key \<noteq> None"
  by (cases "index q key") (simp_all add: set_present set_absent)

lemma set_present_frame:
  "index q key = Some e \<Longrightarrow>
   handles (quickList_set key v q) = handles q \<and> index (quickList_set key v q) = index q"
  by (simp add: set_present handles_def handles_setValue)

lemma fold_set_present_frame:
  "index q key = Some e \<Longrightarrow>
   handles (fold (quickList_set key) vs q) = handles q \<and>
   index (fold (quickList_set key) vs q) = index q"
proof (induction vs arbitrary: q)
  case Nil
  then show ?case by simp
next
  case (Cons v vs)
  have f: "handles (quickList_set key v q) = handles q" "index (quickList_set key v q) = index q"
    using set_present_frame [OF Cons.prems] by simp_all
  then have "index (quickList_set key v q) key = Some e" using Cons.prems by simp
  from Cons.IH [OF this] f show ?case by simp
qed

lemma qinv_fold_set: "qinv q \<Longrightarrow> qinv (fold (quickList_set key) vs q)"
  by (induction vs arbitrary: q) (simp_all add: qinv_set)

lemma qinv_index_handles: "qinv q \<Longrightarrow> index q key = Some e \<Longrightarrow> e \<in> set (handles q)"
  by (auto simp: qinv_def ran_def)

lemma valueOf_set:
  assumes "qinv q"
  shows "valueOf (quickList_set key v q) key = Some v"
proof (cases "index q key")
  case (Some e)
  then have "e \<in> fst ` set (rows q)"
    using qinv_index_handles [OF assms Some] by (simp add: handles_def)
  then show ?thesis using Some
    by (simp add: valueOf_def quickList_getByID_def elemValue_def set_present map_of_setValue)
next
  case None
  have "allocated q \<notin> fst ` set (rows q)" using assms by (auto simp: qinv_def handles_def)
  then have "map_of (rows q) (allocated q) = None" by (simp add: map_of_eq_None_iff)
  then show ?thesis using None
    by (simp add: valueOf_def quickList_getByID_def elemValue_def set_absent map_add_def)
qed

lemma filter_handle_le1:
  "distinct (map fst rs) \<Longrightarrow> length (filter (\<lambda>el. e = fst el) rs) \<le> 1"
proof (induction rs)
  case Nil
  then show ?case by simp
next
  case (Cons r rs)
  have "filter (\<lambda>el. e = fst el) rs = []" if "e = fst r"
  proof -
    have "fst r \<notin> fst ` set rs" using Cons.prems by simp
    then have "\<forall>el \<in> set rs. e \<noteq> fst el" using that by (auto simp: image_iff)
    then show ?thesis by (simp add: filter_empty_conv)
  qed
  then show ?case using Cons by auto
qed

lemma filter_handle_eq1:
  assumes d: "distinct (map fst rs)" and m: "e \<in> fst ` set rs"
  shows "length (filter (\<lambda>el. e = fst el) rs) = 1"
proof -
  obtain el where "el \<in> set rs" "e = fst el" using m by auto
  then have "filter (\<lambda>el. e = fst el) rs \<noteq> []" by (auto simp: filter_empty_conv)
  then have "length (filter (\<lambda>el. e = fst el) rs) \<noteq> 0" by simp
  with filter_handle_le1 [OF d, of e] show ?thesis by linarith
qed

lemma entriesOf_present:
  "index q key = Some e \<Longrightarrow> entriesOf q key = filter (\<lambda>el. e = fst el) (rows q)"
  by (simp add: entriesOf_def)

lemma entriesOf_le1: "qinv q \<Longrightarrow> length (entriesOf q key) \<le> 1"
proof (cases "index q key")
  case None
  then show ?thesis by (simp add: entriesOf_def)
next
  case (Some e)
  assume "qinv q"
  then have "distinct (map fst (rows q))" by (simp add: qinv_def handles_def)
  from filter_handle_le1 [OF this, of e] show ?thesis
    by (simp only: entriesOf_present [OF Some])
qed

lemma entriesOf_eq1:
  assumes "qinv q" and "index q key = Some e"
  shows "length (entriesOf q key) = 1"
proof -
  have "distinct (map fst (rows q))" using assms by (simp add: qinv_def handles_def)
  moreover have "e \<in> fst ` set (rows q)"
    using qinv_index_handles [OF assms] by (simp add: handles_def)
  ultimately show ?thesis using filter_handle_eq1 [of "rows q" e]
    by (simp only: entriesOf_present [OF assms(2)])
qed

lemma positionOf_cong:
  "handles q' = handles q \<Longrightarrow> index q' = index q \<Longrightarrow> positionOf q' key = positionOf q key"
  by (simp add: positionOf_def split: option.splits)

lemma fold_last: "vs \<noteq> [] \<Longrightarrow> fold f vs q = f (last vs) (fold f (butlast vs) q)"
  by (induction vs arbitrary: q) auto

lemma positionOf_set_absent:
  assumes "qinv q" and "index q key = None"
  shows "positionOf (quickList_set key v q) key = Some (length (rows q))"
proof -
  have "allocated q \<notin> set (map fst (rows q))" using assms by (auto simp: qinv_def handles_def)
  then have "takeWhile (\<lambda>h. h \<noteq> allocated q) (map fst (rows q)) = map fst (rows q)"
    by (intro takeWhile_eq_all_conv [THEN iffD2]) blast
  then show ?thesis using assms(2)
    by (simp add: positionOf_def set_absent handles_def takeWhile_append)
qed

text \<open>
  Claim C6. In a list that satisfies the invariant, \<open>set\<close> and \<open>remove\<close> keep the
  invariant, and no key has more than one linked element. After any non-empty sequence of
  \<open>set\<close> calls with one key, the key has exactly one element, its value is the value of
  the last call, and its position and the order of all elements are those after the first
  call. \<open>set\<close> on a key that is present changes neither the order nor the position.
  After \<open>remove\<close> the key is gone from the index, and the next \<open>set\<close> with the key
  links a new element behind all the others.
\<close>

theorem quickList_one_entry_per_key:
  assumes "qinv q"
  shows "qinv (quickList_set key v q) \<and> qinv (snd (quickList_remove key q)) \<and>
         length (entriesOf q k) \<le> 1 \<and>
         (vs \<noteq> [] \<longrightarrow>
            length (entriesOf (fold (quickList_set key) vs q) key) = 1 \<and>
            valueOf (fold (quickList_set key) vs q) key = Some (last vs) \<and>
            positionOf (fold (quickList_set key) vs q) key
              = positionOf (quickList_set key (hd vs) q) key \<and>
            handles (fold (quickList_set key) vs q) = handles (quickList_set key (hd vs) q)) \<and>
         (index q key \<noteq> None \<longrightarrow>
            handles (quickList_set key v q) = handles q \<and>
            positionOf (quickList_set key v q) key = positionOf q key) \<and>
         index (snd (quickList_remove key q)) key = None \<and>
         rows (quickList_set key v (snd (quickList_remove key q)))
           = rows (snd (quickList_remove key q))
               @ [(allocated (snd (quickList_remove key q)), v)] \<and>
         positionOf (quickList_set key v (snd (quickList_remove key q))) key
           = Some (length (rows (snd (quickList_remove key q))))"
proof -
  let ?F = "fold (quickList_set key)"
  have seq: "length (entriesOf (?F vs q) key) = 1 \<and> valueOf (?F vs q) key = Some (last vs) \<and>
      positionOf (?F vs q) key = positionOf (quickList_set key (hd vs) q) key \<and>
      handles (?F vs q) = handles (quickList_set key (hd vs) q)" if ne: "vs \<noteq> []"
  proof -
    obtain w ws where vs: "vs = w # ws" using ne by (cases vs) auto
    let ?q1 = "quickList_set key w q"
    obtain e where e: "index ?q1 key = Some e" using set_index_key [of key w q] by auto
    have fr: "handles (?F ws ?q1) = handles ?q1" "index (?F ws ?q1) = index ?q1"
      using fold_set_present_frame [OF e] by simp_all
    have inv': "qinv (?F vs q)" using assms by (rule qinv_fold_set)
    have "index (?F vs q) key = Some e" using fr e vs by simp
    then have one: "length (entriesOf (?F vs q) key) = 1" using inv' by (rule entriesOf_eq1 [rotated])
    have "?F vs q = quickList_set key (last vs) (?F (butlast vs) q)"
      using ne by (rule fold_last)
    moreover have "qinv (?F (butlast vs) q)" using assms by (rule qinv_fold_set)
    ultimately have val: "valueOf (?F vs q) key = Some (last vs)" by (simp add: valueOf_set)
    have "positionOf (?F ws ?q1) key = positionOf ?q1 key"
      using fr by (rule positionOf_cong)
    then show ?thesis using one val fr(1) vs by simp
  qed
  have upd: "handles (quickList_set key v q) = handles q \<and>
      positionOf (quickList_set key v q) key = positionOf q key" if present: "index q key \<noteq> None"
  proof -
    obtain e where "index q key = Some e" using present by auto
    from set_present_frame [OF this, of v]
    have fr: "handles (quickList_set key v q) = handles q"
      "index (quickList_set key v q) = index q" by simp_all
    from fr(1) positionOf_cong [OF fr] show ?thesis by simp
  qed
  let ?r = "snd (quickList_remove key q)"
  have rinv: "qinv ?r" using assms by (rule qinv_remove)
  have gone: "index ?r key = None" by (simp add: quickList_remove_def Let_def)
  have tail: "rows (quickList_set key v ?r) = rows ?r @ [(allocated ?r, v)]"
    using gone by (simp add: set_absent)
  have pos: "positionOf (quickList_set key v ?r) key = Some (length (rows ?r))"
    using rinv gone by (rule positionOf_set_absent)
  show ?thesis
    using qinv_set [OF assms] rinv entriesOf_le1 [OF assms] seq upd gone tail pos by blast
qed

lemma abcList_rows: "rows abcList = [(0, 1), (1, 2), (2, 3)]"
  by (simp add: abcList_def quickList_set_def newQuickList_def PushBack_def)

lemma abcList_index:
  "index abcList = [''A'' \<mapsto> 0, ''B'' \<mapsto> 1, ''C'' \<mapsto> 2]"
  by (simp add: abcList_def quickList_set_def newQuickList_def PushBack_def numeral_2_eq_2)

lemma abcList_allocated: "allocated abcList = 3"
  by (simp add: abcList_def quickList_set_def newQuickList_def PushBack_def)

lemma qinv_abcList: "qinv abcList"
  unfolding abcList_def by (intro qinv_set qinv_new)

theorem quickList_one_entry_per_key_witness:
  "qinv abcList \<and> [7, 8] \<noteq> ([] :: nat list) \<and> index abcList ''B'' \<noteq> None \<and>
   length (entriesOf (fold (quickList_set ''B'') [7, 8] abcList) ''B'') = 1 \<and>
   valueOf (fold (quickList_set ''B'') [7, 8] abcList) ''B'' = Some 8 \<and>
   positionOf (fold (quickList_set ''B'') [7, 8] abcList) ''B'' = Some 1 \<and>
   handles (fold (quickList_set ''B'') [7, 8] abcList) = [0, 1, 2] \<and>
   index (snd (quickList_remove ''B'' abcList)) ''B'' = None \<and>
   rows (quickList_set ''B'' 9 (snd (quickList_remove ''B'' abcList))) = [(0, 1), (2, 3), (3, 9)] \<and>
   positionOf (quickList_set ''B'' 9 (snd (quickList_remove ''B'' abcList))) ''B'' = Some 2"
proof -
  have idx: "index abcList ''B'' = Some 1" by (simp add: abcList_index)
  have first: "quickList_set ''B'' 7 abcList = abcList\<lparr>rows := [(0, 1), (1, 7), (2, 3)]\<rparr>"
    by (simp add: quickList_set_def idx abcList_rows setValue_def)
  have pos1: "positionOf (quickList_set ''B'' 7 abcList) ''B'' = Some 1"
    by (simp add: first positionOf_def handles_def idx)
  have h1: "handles (quickList_set ''B'' 7 abcList) = [0, 1, 2]"
    by (simp add: first handles_def)
  have rem: "snd (quickList_remove ''B'' abcList)
      = abcList\<lparr>rows := [(0, 1), (2, 3)], index := (index abcList)(''B'' := None)\<rparr>"
    by (simp add: quickList_remove_def idx abcList_rows Remove_def)
  have len: "length (rows (snd (quickList_remove ''B'' abcList))) = 2"
    and rws: "rows (snd (quickList_remove ''B'' abcList)) = [(0, 1), (2, 3)]"
    and alc: "allocated (snd (quickList_remove ''B'' abcList)) = 3"
    by (simp_all add: rem abcList_allocated)
  show ?thesis
    using quickList_one_entry_per_key [OF qinv_abcList, of "''B''" 9 "''B''" "[7, 8]"]
    by (simp add: qinv_abcList idx pos1 h1 len rws alc)
qed

section \<open>The window of \<open>iterate\<close>\<close>











section \<open>The example store\<close>

lemma ClientId_newClientInfo [simp]:
  "Client.ClientId (newClientInfo client) = ClientID (ClientOptions client)"
  by (simp add: newClientInfo_def Let_def)

lemma addClient_unfold:
  "addClient client s =
     s\<lparr>heap := (heap s)(nextAddr s := newClientInfo client),
       nextAddr := Suc (nextAddr s),
       clientList := quickList_set (ClientID (ClientOptions client)) (nextAddr s) (clientList s)\<rparr>"
  by (simp add: addClient_def allocClient_def)

lemma conn_ClientID [simp]: "ClientID (ClientOptions (conn cid)) = cid"
  by (simp add: conn_def)


lemma abcStore_clientList:
  "clientList (abcStore sr) =
     \<lparr>index = [''A'' \<mapsto> 0, ''B'' \<mapsto> 1, ''C'' \<mapsto> 2],
      rows = [(0, 0), (1, 1), (2, 2)], allocated = 3\<rparr>"
  by (simp add: abcStore_def addClient_unfold newStore_def quickList_set_def
      newQuickList_def PushBack_def numeral_2_eq_2 numeral_3_eq_3)


lemma abcStore_heap:
  "heap (abcStore sr) =
     (\<lambda>_. zeroClient)(0 := newClientInfo (conn ''A''), 1 := newClientInfo (conn ''B''),
       2 := newClientInfo (conn ''C''))"
  by (simp add: abcStore_def addClient_unfold newStore_def numeral_2_eq_2)

lemma abcStore_rest:
  "subscriptions (abcStore sr) = newQuickList" "statsReader (abcStore sr) = sr"
  "nextAddr (abcStore sr) = 3"
  by (simp_all add: abcStore_def addClient_unfold newStore_def)

section \<open>Absent keys and page zero\<close>

lemma remove_absent: "index q key = None \<Longrightarrow> quickList_remove key q = (None, q)"
  by (simp add: quickList_remove_def fun_upd_idem)

text \<open>
  Claim C7. After \<open>remove\<close> of any key, \<open>getByID\<close> of that key finds nothing, whether
  the key was present or not. On a key that is absent, \<open>remove\<close> returns \<open>nil\<close> and leaves
  the list as it was, and \<open>removeClient\<close>, \<open>setClientDisconnected\<close> and
  \<open>removeSubscription\<close> leave the whole store as it was. None of these operations has
  an error result or a failing branch.
\<close>

theorem remove_then_absent_and_noop:
  "quickList_getByID key (snd (quickList_remove key q)) = None \<and>
   valueOf (snd (quickList_remove key q)) key = None \<and>
   (index q key = None \<longrightarrow> quickList_remove key q = (None, q)) \<and>
   (index (clientList s) clientID = None \<longrightarrow>
      removeClient clientID s = s \<and> setClientDisconnected clientID now s = s) \<and>
   (index (subscriptions s) (subscriptionKey clientID topicName) = None \<longrightarrow>
      removeSubscription clientID topicName s = s)"
proof -
  have "quickList_getByID key (snd (quickList_remove key q)) = None"
    by (simp add: quickList_getByID_def quickList_remove_def Let_def)
  then show ?thesis
    by (simp add: valueOf_def remove_absent removeClient_def setClientDisconnected_def
        removeSubscription_def quickList_getByID_def)
qed

theorem remove_then_absent_and_noop_witness:
  "index abcList ''Z'' = None \<and> quickList_remove ''Z'' abcList = (None, abcList) \<and>
   quickList_getByID ''B'' (snd (quickList_remove ''B'' abcList)) = None \<and>
   index (clientList (newStore noStats)) ''A'' = None \<and>
   removeClient ''A'' (newStore noStats) = newStore noStats \<and>
   setClientDisconnected ''A'' \<lparr>Seconds = 1, Nanos = 0\<rparr> (newStore noStats) = newStore noStats \<and>
   index (subscriptions (newStore noStats)) (subscriptionKey ''A'' ''t'') = None \<and>
   removeSubscription ''A'' ''t'' (newStore noStats) = newStore noStats"
  using remove_then_absent_and_noop [of "''Z''" abcList "newStore noStats" "''A''"
      "\<lparr>Seconds = 1, Nanos = 0\<rparr>" "''t''"]
    remove_then_absent_and_noop [of "''B''" abcList "newStore noStats" "''A''"
      "\<lparr>Seconds = 1, Nanos = 0\<rparr>" "''t''"]
  by (simp add: abcList_index newStore_def newQuickList_def)

lemma iterate_loop_page0: "iterate_loop fn (- n) n 0 es s = s"
  by (cases es) simp_all

lemma quickList_iterate_page0: "quickList_iterate fn (- n) n q s = s"
  by (simp add: quickList_iterate_def iterate_loop_page0)

lemma total_exact:
  "length (rows q) < 2 ^ 32 \<Longrightarrow> unat (word_of_int (Len q) :: uint32) = length (rows q)"
  by (simp add: Len_def unat_of_nat)

lemma total_mod:
  "unat (word_of_int (Len q) :: uint32) = length (rows q) mod 2 ^ 32"
  by (simp add: Len_def unat_of_nat)

lemma GetClients_page0:
  "GetClients 0 pageSize s = (([], word_of_int (Len (clientList s)), None), s)"
  by (simp add: GetClients_def getOffsetN_def quickList_iterate_page0)

lemma GetSubscriptions_page0:
  "GetSubscriptions 0 pageSize s = ([], word_of_int (Len (subscriptions s)), None)"
  by (simp add: GetSubscriptions_def getOffsetN_def quickList_iterate_page0)

text \<open>
  Claim C10, as the code has it. With \<open>page = 0\<close> the offset \<open>(page - 1) * pageSize\<close>
  wraps around and \<open>offset + n\<close> wraps back to 0. For every store and every page size,
  \<open>GetClients\<close> and \<open>GetSubscriptions\<close> then return an empty list, a \<open>nil\<close> error, and
  as total the \<open>uint32\<close> of the length of the list: the number of entries modulo
  \<open>2^32\<close>, which is the number of entries itself while that is below \<open>2^32\<close>.
  \<open>GetClients\<close> leaves the store as it was. Both are total functions.
\<close>

theorem page_zero_lists_nothing:
  "GetClients 0 pageSize s = (([], word_of_int (Len (clientList s)), None), s) \<and>
   GetSubscriptions 0 pageSize s = ([], word_of_int (Len (subscriptions s)), None) \<and>
   (length (rows (clientList s)) < 2 ^ 32 \<longrightarrow>
      unat (fst (snd (fst (GetClients 0 pageSize s)))) = length (rows (clientList s))) \<and>
   (length (rows (subscriptions s)) < 2 ^ 32 \<longrightarrow>
      unat (fst (snd (GetSubscriptions 0 pageSize s))) = length (rows (subscriptions s))) \<and>
   unat (fst (snd (fst (GetClients 0 pageSize s)))) = length (rows (clientList s)) mod 2 ^ 32 \<and>
   unat (fst (snd (GetSubscriptions 0 pageSize s)))
     = length (rows (subscriptions s)) mod 2 ^ 32"
  by (simp add: GetClients_page0 GetSubscriptions_page0 total_exact total_mod)

theorem page_zero_lists_nothing_witness:
  "length (rows (clientList (abcStore liveStats))) < 2 ^ 32 \<and>
   length (rows (subscriptions (abcStore liveStats))) < 2 ^ 32 \<and>
   GetClients 0 10 (abcStore liveStats) = (([], 3, None), abcStore liveStats) \<and>
   GetSubscriptions 0 10 (abcStore liveStats) = ([], 0, None)"
  using page_zero_lists_nothing [of 10 "abcStore liveStats"]
  by (simp add: abcStore_clientList abcStore_rest Len_def newQuickList_def)

section \<open>Conversions and the store invariant\<close>

lemma ucast16_unat: "unat (ucast (x :: 16 word) :: 32 word) = unat x"
proof -
  have "unat x < 2 ^ 16" using unsigned_less [of x, where 'a = nat] by simp
  then have "unat x < 2 ^ 32" by simp
  then show ?thesis by (simp add: unsigned_ucast_eq take_bit_nat_eq_self_iff)
qed

lemma sint_ucast_small:
  fixes x :: "'a::len word"
  assumes "LENGTH('a) < 32"
  shows "sint (ucast x :: 32 word) = uint x"
proof -
  have up: "is_up (ucast :: 'a word \<Rightarrow> 32 word)" using assms by (simp add: is_up)
  have u: "uint (ucast x :: 32 word) = uint x" using up by (rule uint_up_ucast)
  have "uint x < 2 ^ LENGTH('a)" by (rule uint_lt2p)
  also have "(2 :: int) ^ LENGTH('a) \<le> 2 ^ 31"
    using assms by (intro power_increasing) simp_all
  finally have lt: "uint x < 2 ^ 31" .
  have ge: "- (2 ^ 31) \<le> uint x"
    by (rule order_trans [of _ 0]) simp_all
  have "signed_take_bit 31 (uint x) = uint x"
    using ge lt by (rule signed_take_bit_int_eq_self)
  then show ?thesis by (simp add: sint_uint u)
qed

lemma ucast16_sint: "sint (ucast (x :: 16 word) :: 32 word) = uint x"
  by (rule sint_ucast_small) simp

lemma ucast8_sint: "sint (ucast (x :: 8 word) :: 32 word) = uint x"
  by (rule sint_ucast_small) simp

lemma setValue_Nil [simp]: "setValue e v [] = []"
  by (simp add: setValue_def)

lemma setValue_Cons [simp]:
  "setValue e v ((a, b) # rs) = (if a = e then (a, v) else (a, b)) # setValue e v rs"
  by (simp add: setValue_def)

lemma set_setValue_iff:
  "(e', c') \<in> set (setValue e v rs) \<longleftrightarrow>
     (e' = e \<and> c' = v \<and> e \<in> fst ` set rs) \<or> (e' \<noteq> e \<and> (e', c') \<in> set rs)"
proof (induction rs)
  case Nil
  then show ?case by simp
next
  case (Cons r rs)
  obtain a b where r: "r = (a, b)" by (cases r)
  show ?case using Cons.IH by (auto simp: r)
qed

lemma store_inv_newStore: "store_inv (newStore sr)"
  by (simp add: store_inv_def newStore_def qinv_new) (simp add: newQuickList_def)


lemma fst_notin: "e \<notin> fst ` set rs \<Longrightarrow> (e, c) \<notin> set rs"
  by (metis fst_conv image_eqI)

lemma store_inv_addClient:
  assumes "store_inv s"
  shows "store_inv (addClient client s)"
proof -
  let ?key = "ClientID (ClientOptions client)"
  let ?p = "nextAddr s"
  let ?q = "clientList s"
  let ?q' = "quickList_set ?key ?p ?q"
  let ?h' = "(heap s)(?p := newClientInfo client)"
  have inv: "qinv ?q"
    and old: "\<And>k e c. index ?q k = Some e \<Longrightarrow> (e, c) \<in> set (rows ?q)
               \<Longrightarrow> c < ?p \<and> Client.ClientId (heap s c) = k"
    using assms by (auto simp: store_inv_def)
  have inv': "qinv ?q'" using inv by (rule qinv_set)
  have new: "c < Suc ?p \<and> Client.ClientId (?h' c) = k"
    if ix: "index ?q' k = Some e" and mem: "(e, c) \<in> set (rows ?q')" for k e c
  proof (cases "index ?q ?key")
    case (Some e0)
    have q': "?q' = ?q\<lparr>rows := setValue e0 ?p (rows ?q)\<rparr>" using Some by (rule set_present)
    have ixq: "index ?q k = Some e" using ix q' by simp
    from mem q' have "(e = e0 \<and> c = ?p \<and> e0 \<in> fst ` set (rows ?q)) \<or>
        (e \<noteq> e0 \<and> (e, c) \<in> set (rows ?q))"
      by (simp add: set_setValue_iff)
    then show ?thesis
    proof
      assume a: "e = e0 \<and> c = ?p \<and> e0 \<in> fst ` set (rows ?q)"
      have "inj_on (index ?q) (dom (index ?q))" using inv by (simp add: qinv_def)
      then have "k = ?key" using ixq Some a by (auto simp: inj_on_def dom_def)
      then show ?thesis using a by simp
    next
      assume a: "e \<noteq> e0 \<and> (e, c) \<in> set (rows ?q)"
      then have "c < ?p \<and> Client.ClientId (heap s c) = k" using old ixq by blast
      then show ?thesis by simp
    qed
  next
    case None
    have q': "?q' = ?q\<lparr>rows := rows ?q @ [(allocated ?q, ?p)], allocated := Suc (allocated ?q),
        index := (index ?q)(?key \<mapsto> allocated ?q)\<rparr>"
      using None by (rule set_absent)
    have fresh_h: "allocated ?q \<notin> set (handles ?q)"
      using inv by (auto simp: qinv_def)
    then have fresh: "allocated ?q \<notin> fst ` set (rows ?q)"
      by (simp add: handles_def)
    show ?thesis
    proof (cases "k = ?key")
      case True
      then have "e = allocated ?q" using ix q' by simp
      then have "c = ?p" using mem q' fst_notin [OF fresh] by auto
      then show ?thesis using True by simp
    next
      case False
      then have ixq: "index ?q k = Some e" using ix q' by simp
      then have "e \<in> set (handles ?q)" using inv by (rule qinv_index_handles [rotated])
      then have "e \<noteq> allocated ?q" using fresh_h by auto
      then have "(e, c) \<in> set (rows ?q)" using mem q' by auto
      then have "c < ?p \<and> Client.ClientId (heap s c) = k" using old ixq by blast
      then show ?thesis by simp
    qed
  qed
  let ?s' = "s\<lparr>heap := ?h', nextAddr := Suc ?p, clientList := ?q'\<rparr>"
  have "store_inv ?s'"
    unfolding store_inv_def
  proof (rule conjI)
    show "qinv (clientList ?s')" using inv' by simp
  next
    show "\<forall>k e c. index (clientList ?s') k = Some e \<and> (e, c) \<in> set (rows (clientList ?s'))
        \<longrightarrow> c < nextAddr ?s' \<and> Client.ClientId (heap ?s' c) = k"
    proof (intro allI impI)
      fix k e c
      assume "index (clientList ?s') k = Some e \<and> (e, c) \<in> set (rows (clientList ?s'))"
      then have "index ?q' k = Some e" "(e, c) \<in> set (rows ?q')" by simp_all
      from new [OF this] show "c < nextAddr ?s' \<and> Client.ClientId (heap ?s' c) = k" by simp
    qed
  qed
  then show ?thesis by (simp only: addClient_unfold)
qed

section \<open>What the read operations write\<close>

lemma iterate_loop_invariant:
  assumes step: "\<And>e t. e \<in> set es \<Longrightarrow> P t \<Longrightarrow> P (fn e t)" and init: "P s"
  shows "P (iterate_loop fn offset n i es s)"
  using assms
proof (induction es arbitrary: i s)
  case Nil
  then show ?case by simp
next
  case (Cons e es)
  have tail: "P (iterate_loop fn offset n (i + 1) es t)" if "P t" for t
    using Cons.prems(1) that by (intro Cons.IH) simp_all
  have "P (fn e s)" using Cons.prems by simp
  then show ?case using Cons.prems(2) tail by simp
qed

lemma quickList_iterate_invariant:
  assumes "\<And>e t. e \<in> set (rows q) \<Longrightarrow> P t \<Longrightarrow> P (fn e t)" and "P s"
  shows "P (quickList_iterate fn offset n q s)"
  using assms iterate_loop_invariant [of "rows q" P fn s offset n 0]
  by (simp add: quickList_iterate_def)

lemma fill_other: "c \<noteq> Some p \<Longrightarrow> fillClientInfo c sr h p = h p"
  by (simp add: fillClientInfo_def split: option.splits)

lemma fill_withoutStats: "withoutStats (fillClientInfo c sr h p) = withoutStats (h p)"
  by (simp add: fillClientInfo_def fillStats_def withoutStats_def split: option.splits)

lemma fill_ClientId: "Client.ClientId (fillClientInfo c sr h p) = Client.ClientId (h p)"
  by (simp add: fillClientInfo_def fillStats_def split: option.splits)

lemma fill_nodata: "\<forall>cid. sr cid = None \<Longrightarrow> fillClientInfo c sr h = h"
  by (simp add: fillClientInfo_def split: option.splits)

lemma GetClients_unfold:
  "GetClients page pageSize s =
     ((fst (quickList_iterate (GetClients_fn (statsReader s)) ((page - 1) * pageSize) pageSize
              (clientList s) ([], heap s)),
       word_of_int (Len (clientList s)), None),
      s\<lparr>heap := snd (quickList_iterate (GetClients_fn (statsReader s)) ((page - 1) * pageSize)
              pageSize (clientList s) ([], heap s))\<rparr>)"
  by (simp add: GetClients_def getOffsetN_def split_def Let_def)

lemma GetClients_invariant:
  assumes step: "\<And>e c rs h. (e, c) \<in> set (rows (clientList s)) \<Longrightarrow> P (rs, h)
            \<Longrightarrow> P (rs @ [c], fillClientInfo (Some c) (statsReader s) h)"
    and init: "P ([], heap s)"
  shows "P (fst (fst (GetClients page pageSize s)), heap (snd (GetClients page pageSize s)))"
proof -
  have "P (quickList_iterate (GetClients_fn (statsReader s)) ((page - 1) * pageSize) pageSize
              (clientList s) ([], heap s))"
  proof (rule quickList_iterate_invariant [where P = P])
    fix el t
    assume "el \<in> set (rows (clientList s))" "P t"
    then show "P (GetClients_fn (statsReader s) el t)"
      using step [of "fst el" "snd el" "fst t" "snd t"] by (simp add: GetClients_fn_def)
  qed (rule init)
  then show ?thesis by (simp add: GetClients_unfold)
qed

lemma GetClientByID_frame:
  "clientList (snd (GetClientByID clientID s)) = clientList s \<and>
   subscriptions (snd (GetClientByID clientID s)) = subscriptions s \<and>
   statsReader (snd (GetClientByID clientID s)) = statsReader s \<and>
   nextAddr (snd (GetClientByID clientID s)) = nextAddr s \<and>
   (\<forall>p. withoutStats (heap (snd (GetClientByID clientID s)) p) = withoutStats (heap s p)) \<and>
   (\<forall>p. fst (GetClientByID clientID s) \<noteq> Some p \<longrightarrow>
      heap (snd (GetClientByID clientID s)) p = heap s p)"
  by (simp add: GetClientByID_def Let_def fill_withoutStats fill_other)

lemma GetClients_frame:
  "clientList (snd (GetClients page pageSize s)) = clientList s \<and>
   subscriptions (snd (GetClients page pageSize s)) = subscriptions s \<and>
   statsReader (snd (GetClients page pageSize s)) = statsReader s \<and>
   nextAddr (snd (GetClients page pageSize s)) = nextAddr s"
  by (simp add: GetClients_unfold)

lemma GetClients_heap:
  "(\<forall>p. withoutStats (heap (snd (GetClients page pageSize s)) p) = withoutStats (heap s p)) \<and>
   (\<forall>p. p \<notin> set (fst (fst (GetClients page pageSize s))) \<longrightarrow>
      heap (snd (GetClients page pageSize s)) p = heap s p) \<and>
   set (fst (fst (GetClients page pageSize s))) \<subseteq> snd ` set (rows (clientList s))"
proof -
  let ?P = "\<lambda>(rs, h). (\<forall>p. withoutStats (h p) = withoutStats (heap s p)) \<and>
      (\<forall>p. p \<notin> set rs \<longrightarrow> h p = heap s p) \<and> set rs \<subseteq> snd ` set (rows (clientList s))"
  have "?P (fst (fst (GetClients page pageSize s)), heap (snd (GetClients page pageSize s)))"
  proof (rule GetClients_invariant [where P = ?P])
    fix e c rs h
    assume mem: "(e, c) \<in> set (rows (clientList s))" and P: "?P (rs, h)"
    have "c \<in> snd ` set (rows (clientList s))" using mem by force
    then show "?P (rs @ [c], fillClientInfo (Some c) (statsReader s) h)"
      using P by (auto simp: fill_withoutStats fill_other)
  qed simp
  then show ?thesis by simp
qed

lemma GetClients_nodata:
  assumes "\<forall>cid. statsReader s cid = None"
  shows "snd (GetClients page pageSize s) = s"
proof -
  let ?P = "\<lambda>(rs, h). h = heap s"
  have "?P (fst (fst (GetClients page pageSize s)), heap (snd (GetClients page pageSize s)))"
    by (rule GetClients_invariant [where P = ?P]) (simp_all add: fill_nodata assms)
  then have "heap (snd (GetClients page pageSize s)) = heap s" by simp
  then show ?thesis by (simp add: GetClients_unfold)
qed

lemma getClientByIDLocked_stored:
  "getClientByIDLocked clientID s = Some c \<Longrightarrow> c \<in> snd ` set (rows (clientList s))"
  by (auto simp: getClientByIDLocked_def quickList_getByID_def elemValue_def
      split: option.splits dest!: map_of_SomeD intro: rev_image_eqI)

lemma fillStats_fields:
  "Client.SubscriptionsCurrent (fillStats sts r) = ucast (ClientStats.SubscriptionsCurrent sts)"
  "Client.SubscriptionsTotal (fillStats sts r) = ucast (ClientStats.SubscriptionsTotal sts)"
  "PacketsReceivedBytes (fillStats sts r) = BytesReceived_Total sts"
  "PacketsReceivedNums (fillStats sts r) = ReceivedTotal_Total sts"
  "PacketsSendBytes (fillStats sts r) = BytesSent_Total sts"
  "PacketsSendNums (fillStats sts r) = SentTotal_Total sts"
  "MessageDropped (fillStats sts r) = GetDroppedTotal sts"
  "InflightLen (fillStats sts r) = ucast (InflightCurrent sts)"
  "QueueLen (fillStats sts r) = ucast (QueuedCurrent sts)"
  "withoutStats (fillStats sts r) = withoutStats r"
  by (simp_all add: fillStats_def withoutStats_def)

lemma fillStats_idem: "fillStats sts (fillStats sts r) = fillStats sts r"
  by (simp add: fillStats_def)

lemma ClientId_fillStats: "Client.ClientId (fillStats sts r) = Client.ClientId r"
  by (simp add: fillStats_def)

lemma fillClientInfo_at:
  "fillClientInfo (Some c) sr h c =
     (case sr (Client.ClientId (h c)) of None \<Rightarrow> h c | Some sts \<Rightarrow> fillStats sts (h c))"
  by (simp add: fillClientInfo_def split: option.splits)

lemma GetClientByID_enriched:
  "fst (GetClientByID clientID s) = Some c \<Longrightarrow>
   heap (snd (GetClientByID clientID s)) c = enriched s c"
  by (simp add: GetClientByID_def Let_def fillClientInfo_at enriched_def)

lemma fill_enriched:
  assumes "h c = heap s c \<or> h c = enriched s c"
  shows "fillClientInfo (Some c) (statsReader s) h c = enriched s c"
proof -
  have cid: "Client.ClientId (h c) = Client.ClientId (heap s c)"
    using assms by (auto simp: enriched_def ClientId_fillStats split: option.splits)
  show ?thesis
    using assms
    by (auto simp: fillClientInfo_at cid enriched_def fillStats_idem split: option.splits)
qed

lemma GetClients_enriched:
  "\<forall>p \<in> set (fst (fst (GetClients page pageSize s))).
     heap (snd (GetClients page pageSize s)) p = enriched s p"
proof -
  let ?P = "\<lambda>(rs, h). (\<forall>p \<in> set rs. h p = enriched s p) \<and>
      (\<forall>p. p \<notin> set rs \<longrightarrow> h p = heap s p)"
  have "?P (fst (fst (GetClients page pageSize s)), heap (snd (GetClients page pageSize s)))"
  proof (rule GetClients_invariant [where P = ?P])
    fix e c rs h
    assume P: "?P (rs, h)"
    let ?h' = "fillClientInfo (Some c) (statsReader s) h"
    have "h c = heap s c \<or> h c = enriched s c" using P by auto
    then have atc: "?h' c = enriched s c" by (rule fill_enriched)
    have other: "?h' p = h p" if "p \<noteq> c" for p
      using that by (simp add: fill_other)
    have all: "?h' p = enriched s p" if "p \<in> set rs \<or> p = c" for p
    proof (cases "p = c")
      case True
      then show ?thesis using atc by simp
    next
      case False
      then have "p \<in> set rs" using that by simp
      then have "h p = enriched s p" using P by simp
      then show ?thesis using other [OF False] by simp
    qed
    have rest: "?h' p = heap s p" if "p \<notin> set rs" "p \<noteq> c" for p
      using that P other by simp
    show "?P (rs @ [c], ?h')"
      using all rest by simp
  qed simp
  then show ?thesis by simp
qed

text \<open>
  Claim C3, as the code has it. \<open>GetClientByID\<close> and \<open>GetClients\<close> return the
  pointers that the list holds, and \<open>fillClientInfo\<close> writes the live statistics through
  them into the stored records: after the read, every record that the read returns is the
  stored record with its nine stats fields set from the counters the statistics reader has
  for its client identifier, and is unchanged when the reader has none. A read leaves the
  list, its index and order, the subscriptions, and in every record all fields outside the
  stats block as they were; it writes to no record other than the ones it returns; and
  when the statistics reader has no data at all, it leaves the whole store as it was.
\<close>

theorem reads_write_only_stats:
  "clientList (snd (GetClientByID clientID s)) = clientList s \<and>
   subscriptions (snd (GetClientByID clientID s)) = subscriptions s \<and>
   statsReader (snd (GetClientByID clientID s)) = statsReader s \<and>
   nextAddr (snd (GetClientByID clientID s)) = nextAddr s \<and>
   (\<forall>p. withoutStats (heap (snd (GetClientByID clientID s)) p) = withoutStats (heap s p)) \<and>
   (\<forall>p. fst (GetClientByID clientID s) \<noteq> Some p \<longrightarrow>
      heap (snd (GetClientByID clientID s)) p = heap s p) \<and>
   (\<forall>c. fst (GetClientByID clientID s) = Some c \<longrightarrow> c \<in> snd ` set (rows (clientList s))) \<and>
   clientList (snd (GetClients page pageSize s)) = clientList s \<and>
   subscriptions (snd (GetClients page pageSize s)) = subscriptions s \<and>
   statsReader (snd (GetClients page pageSize s)) = statsReader s \<and>
   nextAddr (snd (GetClients page pageSize s)) = nextAddr s \<and>
   (\<forall>p. withoutStats (heap (snd (GetClients page pageSize s)) p) = withoutStats (heap s p)) \<and>
   (\<forall>p. p \<notin> set (fst (fst (GetClients page pageSize s))) \<longrightarrow>
      heap (snd (GetClients page pageSize s)) p = heap s p) \<and>
   set (fst (fst (GetClients page pageSize s))) \<subseteq> snd ` set (rows (clientList s)) \<and>
   ((\<forall>cid. statsReader s cid = None) \<longrightarrow>
      snd (GetClientByID clientID s) = s \<and> snd (GetClients page pageSize s) = s) \<and>
   (\<forall>c. fst (GetClientByID clientID s) = Some c \<longrightarrow>
      heap (snd (GetClientByID clientID s)) c = enriched s c) \<and>
   (\<forall>p \<in> set (fst (fst (GetClients page pageSize s))).
      heap (snd (GetClients page pageSize s)) p = enriched s p) \<and>
   (statsReader s (Client.ClientId (heap s q)) = None \<longrightarrow> enriched s q = heap s q) \<and>
   (statsReader s (Client.ClientId (heap s q)) = Some sts \<longrightarrow>
      enriched s q = fillStats sts (heap s q)) \<and>
   Client.SubscriptionsCurrent (fillStats sts r) = ucast (ClientStats.SubscriptionsCurrent sts) \<and>
   Client.SubscriptionsTotal (fillStats sts r) = ucast (ClientStats.SubscriptionsTotal sts) \<and>
   PacketsReceivedBytes (fillStats sts r) = BytesReceived_Total sts \<and>
   PacketsReceivedNums (fillStats sts r) = ReceivedTotal_Total sts \<and>
   PacketsSendBytes (fillStats sts r) = BytesSent_Total sts \<and>
   PacketsSendNums (fillStats sts r) = SentTotal_Total sts \<and>
   MessageDropped (fillStats sts r) = GetDroppedTotal sts \<and>
   InflightLen (fillStats sts r) = ucast (InflightCurrent sts) \<and>
   QueueLen (fillStats sts r) = ucast (QueuedCurrent sts)"
proof -
  have a: "\<forall>c. fst (GetClientByID clientID s) = Some c \<longrightarrow> c \<in> snd ` set (rows (clientList s))"
    by (simp add: GetClientByID_def Let_def getClientByIDLocked_stored)
  have b: "(\<forall>cid. statsReader s cid = None) \<longrightarrow> snd (GetClientByID clientID s) = s"
    by (simp add: GetClientByID_def Let_def fill_nodata)
  have frame: "clientList (snd (GetClientByID clientID s)) = clientList s \<and>
   subscriptions (snd (GetClientByID clientID s)) = subscriptions s \<and>
   statsReader (snd (GetClientByID clientID s)) = statsReader s \<and>
   nextAddr (snd (GetClientByID clientID s)) = nextAddr s \<and>
   (\<forall>p. withoutStats (heap (snd (GetClientByID clientID s)) p) = withoutStats (heap s p)) \<and>
   (\<forall>p. fst (GetClientByID clientID s) \<noteq> Some p \<longrightarrow>
      heap (snd (GetClientByID clientID s)) p = heap s p) \<and>
   (\<forall>c. fst (GetClientByID clientID s) = Some c \<longrightarrow> c \<in> snd ` set (rows (clientList s))) \<and>
   clientList (snd (GetClients page pageSize s)) = clientList s \<and>
   subscriptions (snd (GetClients page pageSize s)) = subscriptions s \<and>
   statsReader (snd (GetClients page pageSize s)) = statsReader s \<and>
   nextAddr (snd (GetClients page pageSize s)) = nextAddr s \<and>
   (\<forall>p. withoutStats (heap (snd (GetClients page pageSize s)) p) = withoutStats (heap s p)) \<and>
   (\<forall>p. p \<notin> set (fst (fst (GetClients page pageSize s))) \<longrightarrow>
      heap (snd (GetClients page pageSize s)) p = heap s p) \<and>
   set (fst (fst (GetClients page pageSize s))) \<subseteq> snd ` set (rows (clientList s)) \<and>
   ((\<forall>cid. statsReader s cid = None) \<longrightarrow>
      snd (GetClientByID clientID s) = s \<and> snd (GetClients page pageSize s) = s)"
    using GetClientByID_frame [of clientID s] GetClients_frame [of page pageSize s]
      GetClients_heap [of page pageSize s] GetClients_nodata [of s page pageSize] a b
    by blast
  have written: "(\<forall>c. fst (GetClientByID clientID s) = Some c \<longrightarrow>
      heap (snd (GetClientByID clientID s)) c = enriched s c) \<and>
   (\<forall>p \<in> set (fst (fst (GetClients page pageSize s))).
      heap (snd (GetClients page pageSize s)) p = enriched s p)"
    using GetClientByID_enriched [of clientID s] GetClients_enriched [of page pageSize s]
    by blast
  have en: "(statsReader s (Client.ClientId (heap s q)) = None \<longrightarrow> enriched s q = heap s q) \<and>
   (statsReader s (Client.ClientId (heap s q)) = Some sts \<longrightarrow>
      enriched s q = fillStats sts (heap s q))"
    by (simp add: enriched_def)
  have fields:
    "Client.SubscriptionsCurrent (fillStats sts r) = ucast (ClientStats.SubscriptionsCurrent sts) \<and>
     Client.SubscriptionsTotal (fillStats sts r) = ucast (ClientStats.SubscriptionsTotal sts) \<and>
     PacketsReceivedBytes (fillStats sts r) = BytesReceived_Total sts \<and>
     PacketsReceivedNums (fillStats sts r) = ReceivedTotal_Total sts \<and>
     PacketsSendBytes (fillStats sts r) = BytesSent_Total sts \<and>
     PacketsSendNums (fillStats sts r) = SentTotal_Total sts \<and>
     MessageDropped (fillStats sts r) = GetDroppedTotal sts \<and>
     InflightLen (fillStats sts r) = ucast (InflightCurrent sts) \<and>
     QueueLen (fillStats sts r) = ucast (QueuedCurrent sts)"
    by (simp add: fillStats_fields)
  show ?thesis
    using frame written en fields by blast
qed

lemma newClientInfo_stats:
  "Client.SubscriptionsCurrent (newClientInfo client) = 0"
  "Client.SubscriptionsTotal (newClientInfo client) = 0"
  "PacketsReceivedBytes (newClientInfo client) = 0"
  "PacketsReceivedNums (newClientInfo client) = 0"
  "PacketsSendBytes (newClientInfo client) = 0"
  "PacketsSendNums (newClientInfo client) = 0"
  "MessageDropped (newClientInfo client) = 0"
  "InflightLen (newClientInfo client) = 0"
  "QueueLen (newClientInfo client) = 0"
  by (simp_all add: newClientInfo_def zeroClient_def Let_def)

lemma abc_get_A: "getClientByIDLocked ''A'' (abcStore sr) = Some 0"
  by (simp add: getClientByIDLocked_def quickList_getByID_def elemValue_def abcStore_clientList)

lemma abc_iterate_12:
  "quickList_iterate (GetClients_fn sr) 0 2 (clientList (abcStore sr)) ([], heap (abcStore sr))
    = ([0, 1], fillClientInfo (Some 1) sr (fillClientInfo (Some 0) sr (heap (abcStore sr))))"
  by (simp add: quickList_iterate_def Len_def abcStore_clientList GetClients_fn_def)

lemma abc_GetClients_12: "fst (fst (GetClients 1 2 (abcStore sr))) = [0, 1]"
  by (simp add: GetClients_unfold abcStore_rest abc_iterate_12)

theorem reads_write_only_stats_witness:
  "(\<forall>cid. statsReader (abcStore noStats) cid = None) \<and>
   snd (GetClientByID ''A'' (abcStore noStats)) = abcStore noStats \<and>
   snd (GetClients 1 2 (abcStore noStats)) = abcStore noStats \<and>
   fst (GetClientByID ''A'' (abcStore noStats)) = Some 0 \<and>
   0 \<in> snd ` set (rows (clientList (abcStore noStats))) \<and>
   fst (GetClientByID ''A'' (abcStore liveStats)) = Some 0 \<and>
   statsReader (abcStore liveStats) (Client.ClientId (heap (abcStore liveStats) 0))
     = Some liveCounters \<and>
   heap (snd (GetClientByID ''A'' (abcStore liveStats))) 0
     = fillStats liveCounters (newClientInfo (conn ''A'')) \<and>
   1 \<in> set (fst (fst (GetClients 1 2 (abcStore liveStats)))) \<and>
   statsReader (abcStore liveStats) (Client.ClientId (heap (abcStore liveStats) 1))
     = Some liveCounters \<and>
   heap (snd (GetClients 1 2 (abcStore liveStats))) 1
     = fillStats liveCounters (newClientInfo (conn ''B'')) \<and>
   QueueLen (heap (snd (GetClients 1 2 (abcStore liveStats))) 1) = 3"
proof -
  have nd: "\<forall>cid. statsReader (abcStore noStats) cid = None"
    by (simp add: abcStore_rest noStats_def)
  have g: "fst (GetClientByID ''A'' (abcStore sr)) = Some 0" for sr
    by (simp add: GetClientByID_def Let_def abc_get_A)
  from reads_write_only_stats [of "''A''" "abcStore noStats" 1 2] nd g [of noStats]
  have no: "snd (GetClientByID ''A'' (abcStore noStats)) = abcStore noStats \<and>
      snd (GetClients 1 2 (abcStore noStats)) = abcStore noStats \<and>
      0 \<in> snd ` set (rows (clientList (abcStore noStats)))"
    by blast
  have m: "1 \<in> set (fst (fst (GetClients 1 2 (abcStore liveStats))))"
    by (simp add: abc_GetClients_12)
  have ls: "statsReader (abcStore liveStats) (Client.ClientId (heap (abcStore liveStats) p))
     = Some liveCounters" for p
    by (simp add: abcStore_rest liveStats_def)
  have h: "heap (abcStore liveStats) 0 = newClientInfo (conn ''A'')"
    "heap (abcStore liveStats) 1 = newClientInfo (conn ''B'')"
    by (simp_all add: abcStore_heap)
  note T = reads_write_only_stats [of "''A''" "abcStore liveStats" 1 2 _ liveCounters]
  from T [of 0] g [of liveStats] ls [of 0]
  have a: "heap (snd (GetClientByID ''A'' (abcStore liveStats))) 0
     = fillStats liveCounters (heap (abcStore liveStats) 0)"
    by metis
  from T [of 1] m ls [of 1]
  have b: "heap (snd (GetClients 1 2 (abcStore liveStats))) 1
     = fillStats liveCounters (heap (abcStore liveStats) 1)"
    by metis
  have q: "QueueLen (fillStats liveCounters (newClientInfo (conn ''B''))) = 3"
    by (simp add: fillStats_fields liveCounters_def)
  show ?thesis
    using nd no g [of noStats] g [of liveStats] ls [of 0] ls [of 1] m a b q
    by (simp only: h simp_thms)
qed

text \<open>
  The claim as the spec words it fails: with a statistics reader that has data, the
  pointer \<open>GetClientByID\<close> returns for A is the pointer the list holds, and the stored
  record of A has zero current subscriptions before the read and 4 after it; likewise
  \<open>GetClients\<close> leaves the queue length 3 in the stored record of B.
\<close>

theorem reads_leave_store_unchanged_counterexample:
  "fst (GetClientByID ''A'' (abcStore liveStats)) = Some 0 \<and>
   valueOf (clientList (abcStore liveStats)) ''A'' = Some 0 \<and>
   Client.SubscriptionsCurrent (heap (abcStore liveStats) 0) = 0 \<and>
   Client.SubscriptionsCurrent (heap (snd (GetClientByID ''A'' (abcStore liveStats))) 0) = 4 \<and>
   fst (fst (GetClients 1 2 (abcStore liveStats))) = [0, 1] \<and>
   Client.QueueLen (heap (abcStore liveStats) 1) = 0 \<and>
   Client.QueueLen (heap (snd (GetClients 1 2 (abcStore liveStats))) 1) = 3"
proof -
  have g: "fst (GetClientByID ''A'' (abcStore liveStats)) = Some 0"
    by (simp add: GetClientByID_def Let_def abc_get_A)
  have v: "valueOf (clientList (abcStore liveStats)) ''A'' = Some 0"
    by (simp add: valueOf_def quickList_getByID_def elemValue_def abcStore_clientList)
  have h0: "Client.SubscriptionsCurrent (heap (abcStore liveStats) 0) = 0"
    "Client.QueueLen (heap (abcStore liveStats) 1) = 0"
    by (simp_all add: abcStore_heap newClientInfo_stats)
  have h1: "Client.SubscriptionsCurrent (heap (snd (GetClientByID ''A'' (abcStore liveStats))) 0) = 4"
    by (simp add: GetClientByID_def Let_def abc_get_A abcStore_rest fillClientInfo_def fillStats_def
        liveStats_def liveCounters_def)
  have it: "quickList_iterate (GetClients_fn liveStats) 0 2 (clientList (abcStore liveStats))
      ([], heap (abcStore liveStats))
    = ([0, 1], fillClientInfo (Some 1) liveStats
         (fillClientInfo (Some 0) liveStats (heap (abcStore liveStats))))"
    by (simp add: quickList_iterate_def Len_def abcStore_clientList GetClients_fn_def)
  have l: "fst (fst (GetClients 1 2 (abcStore liveStats))) = [0, 1]"
    by (simp add: GetClients_unfold abcStore_rest it)
  have h2: "Client.QueueLen (heap (snd (GetClients 1 2 (abcStore liveStats))) 1) = 3"
    by (simp add: GetClients_unfold abcStore_rest it fillClientInfo_def fillStats_def
        liveStats_def liveCounters_def)
  show ?thesis using g v h0 h1 l h2 by simp
qed

section \<open>Reading one client\<close>

lemma qinv_lookup:
  assumes "qinv q" and "index q key = Some e"
  shows "\<exists>c. elemValue q e = Some c \<and> (e, c) \<in> set (rows q)"
proof -
  have "e \<in> fst ` set (rows q)"
    using qinv_index_handles [OF assms] by (simp add: handles_def)
  then have "map_of (rows q) e \<noteq> None" by (simp add: map_of_eq_None_iff)
  then obtain c where c: "map_of (rows q) e = Some c" by auto
  then have "(e, c) \<in> set (rows q)" by (rule map_of_SomeD)
  then show ?thesis using c by (simp add: elemValue_def)
qed

lemma store_inv_abcStore: "store_inv (abcStore sr)"
  unfolding abcStore_def by (intro store_inv_addClient store_inv_newStore)

lemma GetClientByID_absent:
  "index (clientList s) clientID = None \<Longrightarrow> GetClientByID clientID s = (None, s)"
  by (simp add: GetClientByID_def getClientByIDLocked_def quickList_getByID_def
      fillClientInfo_def)

lemma GetClientByID_present:
  assumes inv: "store_inv s" and e: "index (clientList s) clientID = Some e"
  shows "\<exists>c. fst (GetClientByID clientID s) = Some c \<and>
             valueOf (clientList s) clientID = Some c \<and>
             Client.ClientId (heap s c) = clientID \<and>
             (statsReader s clientID = None \<longrightarrow> snd (GetClientByID clientID s) = s) \<and>
             (\<forall>sts. statsReader s clientID = Some sts \<longrightarrow>
                heap (snd (GetClientByID clientID s)) c = fillStats sts (heap s c))"
proof -
  have qi: "qinv (clientList s)" using inv by (simp add: store_inv_def)
  obtain c where c: "elemValue (clientList s) e = Some c"
    and mem: "(e, c) \<in> set (rows (clientList s))"
    using qinv_lookup [OF qi e] by auto
  have cid: "Client.ClientId (heap s c) = clientID"
    using inv e mem by (auto simp: store_inv_def)
  have lk: "getClientByIDLocked clientID s = Some c"
    using e c by (simp add: getClientByIDLocked_def quickList_getByID_def)
  have 1: "fst (GetClientByID clientID s) = Some c"
    using lk by (simp add: GetClientByID_def Let_def)
  have 2: "valueOf (clientList s) clientID = Some c"
    using e c by (simp add: valueOf_def quickList_getByID_def)
  have 3: "statsReader s clientID = None \<longrightarrow> snd (GetClientByID clientID s) = s"
    using lk cid by (simp add: GetClientByID_def Let_def fillClientInfo_def)
  have 4: "\<forall>sts. statsReader s clientID = Some sts \<longrightarrow>
                heap (snd (GetClientByID clientID s)) c = fillStats sts (heap s c)"
    using lk cid by (simp add: GetClientByID_def Let_def fillClientInfo_def)
  show ?thesis using 1 2 3 4 cid by (intro exI [of _ c] conjI)
qed


lemma ucast64_unat: "unat (ucast (x :: 64 word) :: 32 word) = unat x mod 2 ^ 32"
  by (simp add: unsigned_ucast_eq take_bit_eq_mod)

lemma fillStats_counts:
  "unat (Client.SubscriptionsCurrent (fillStats sts r))
     = unat (ClientStats.SubscriptionsCurrent sts) mod 2 ^ 32"
  "unat (Client.SubscriptionsTotal (fillStats sts r))
     = unat (ClientStats.SubscriptionsTotal sts) mod 2 ^ 32"
  "unat (InflightLen (fillStats sts r)) = unat (InflightCurrent sts) mod 2 ^ 32"
  "unat (QueueLen (fillStats sts r)) = unat (QueuedCurrent sts) mod 2 ^ 32"
  by (simp_all only: fillStats_fields ucast64_unat)

text \<open>
  Claim C8, as the code has it. In a store that satisfies the invariant, \<open>GetClientByID\<close>
  of an unknown identifier returns \<open>nil\<close> and leaves the store as it was. For a known
  identifier it returns the pointer held under that key, whose record carries that
  identifier. When the statistics reader has data for the identifier, the record behind
  the pointer is the stored record with the nine fields of the stats block set from the
  reader's counters and everything else as before: the byte, packet and dropped-message
  counters as they are, and the two subscription counts, the in-flight length and the
  queue length converted to \<open>uint32\<close>, which is the counter modulo \<open>2^32\<close>. When the
  reader has no data, the store, and so the stats block, stays as it was. No branch of the
  read is an error.
\<close>

theorem GetClientByID_enriches:
  assumes "store_inv s"
  shows
    "(index (clientList s) clientID = None \<longrightarrow> GetClientByID clientID s = (None, s)) \<and>
     (index (clientList s) clientID \<noteq> None \<longrightarrow>
        (\<exists>c. fst (GetClientByID clientID s) = Some c \<and>
             valueOf (clientList s) clientID = Some c \<and>
             Client.ClientId (heap s c) = clientID \<and>
             (statsReader s clientID = None \<longrightarrow> snd (GetClientByID clientID s) = s) \<and>
             (\<forall>sts. statsReader s clientID = Some sts \<longrightarrow>
                heap (snd (GetClientByID clientID s)) c = fillStats sts (heap s c)))) \<and>
     Client.SubscriptionsCurrent (fillStats sts r) = ucast (ClientStats.SubscriptionsCurrent sts) \<and>
     Client.SubscriptionsTotal (fillStats sts r) = ucast (ClientStats.SubscriptionsTotal sts) \<and>
     PacketsReceivedBytes (fillStats sts r) = BytesReceived_Total sts \<and>
     PacketsReceivedNums (fillStats sts r) = ReceivedTotal_Total sts \<and>
     PacketsSendBytes (fillStats sts r) = BytesSent_Total sts \<and>
     PacketsSendNums (fillStats sts r) = SentTotal_Total sts \<and>
     MessageDropped (fillStats sts r) = GetDroppedTotal sts \<and>
     InflightLen (fillStats sts r) = ucast (InflightCurrent sts) \<and>
     QueueLen (fillStats sts r) = ucast (QueuedCurrent sts) \<and>
     withoutStats (fillStats sts r) = withoutStats r \<and>
     unat (Client.SubscriptionsCurrent (fillStats sts r))
       = unat (ClientStats.SubscriptionsCurrent sts) mod 2 ^ 32 \<and>
     unat (Client.SubscriptionsTotal (fillStats sts r))
       = unat (ClientStats.SubscriptionsTotal sts) mod 2 ^ 32 \<and>
     unat (InflightLen (fillStats sts r)) = unat (InflightCurrent sts) mod 2 ^ 32 \<and>
     unat (QueueLen (fillStats sts r)) = unat (QueuedCurrent sts) mod 2 ^ 32"
proof -
  have "index (clientList s) clientID \<noteq> None \<longrightarrow>
        (\<exists>c. fst (GetClientByID clientID s) = Some c \<and>
             valueOf (clientList s) clientID = Some c \<and>
             Client.ClientId (heap s c) = clientID \<and>
             (statsReader s clientID = None \<longrightarrow> snd (GetClientByID clientID s) = s) \<and>
             (\<forall>sts. statsReader s clientID = Some sts \<longrightarrow>
                heap (snd (GetClientByID clientID s)) c = fillStats sts (heap s c)))"
    using GetClientByID_present [OF assms, of clientID] by blast
  then show ?thesis
    using fillStats_counts [of sts r]
    by (simp add: GetClientByID_absent fillStats_fields)
qed

theorem GetClientByID_enriches_witness:
  "store_inv (abcStore liveStats) \<and>
   index (clientList (abcStore liveStats)) ''Z'' = None \<and>
   GetClientByID ''Z'' (abcStore liveStats) = (None, abcStore liveStats) \<and>
   index (clientList (abcStore liveStats)) ''A'' \<noteq> None \<and>
   fst (GetClientByID ''A'' (abcStore liveStats)) = Some 0 \<and>
   statsReader (abcStore liveStats) ''A'' = liveStats ''A'' \<and>
   heap (snd (GetClientByID ''A'' (abcStore liveStats))) 0
     = fillStats liveCounters (newClientInfo (conn ''A'')) \<and>
   statsReader (abcStore noStats) ''A'' = None \<and>
   snd (GetClientByID ''A'' (abcStore noStats)) = abcStore noStats"
proof -
  have z: "index (clientList (abcStore liveStats)) ''Z'' = None"
    and a: "index (clientList (abcStore liveStats)) ''A'' \<noteq> None"
    and a': "index (clientList (abcStore noStats)) ''A'' \<noteq> None"
    by (simp_all add: abcStore_clientList)
  have g: "fst (GetClientByID ''A'' (abcStore sr)) = Some 0" for sr
    by (simp add: GetClientByID_def Let_def abc_get_A)
  have ls: "statsReader (abcStore liveStats) ''A'' = Some liveCounters"
    by (simp add: abcStore_rest liveStats_def)
  have ns: "statsReader (abcStore noStats) ''A'' = None"
    by (simp add: abcStore_rest noStats_def)
  have h0: "heap (abcStore liveStats) 0 = newClientInfo (conn ''A'')"
    by (simp add: abcStore_heap)
  from GetClientByID_enriches [OF store_inv_abcStore, of liveStats "''Z''"] z
  have 1: "GetClientByID ''Z'' (abcStore liveStats) = (None, abcStore liveStats)" by blast
  from GetClientByID_enriches [OF store_inv_abcStore, of liveStats "''A''"] a g [of liveStats] ls
  have 2: "heap (snd (GetClientByID ''A'' (abcStore liveStats))) 0
     = fillStats liveCounters (heap (abcStore liveStats) 0)" by auto
  from GetClientByID_enriches [OF store_inv_abcStore, of noStats "''A''"] a' ns
  have 3: "snd (GetClientByID ''A'' (abcStore noStats)) = abcStore noStats" by blast
  show ?thesis
    using store_inv_abcStore [of liveStats] z a g [of liveStats] 1 2 3 ns h0
    by (simp add: abcStore_rest)
qed

text \<open>
  The claim as the spec words it fails for a counter that does not fit 32 bits: the
  statistics reader reports \<open>2^32 + 5\<close> subscriptions in total for A, and the record
  that \<open>GetClientByID\<close> returns for A holds 5.
\<close>

theorem GetClientByID_truncated_total_counterexample:
  "statsReader (abcStore bigStats) ''A'' = Some bigCounters \<and>
   unat (ClientStats.SubscriptionsTotal bigCounters) = 4294967301 \<and>
   fst (GetClientByID ''A'' (abcStore bigStats)) = Some 0 \<and>
   unat (Client.SubscriptionsTotal (heap (snd (GetClientByID ''A'' (abcStore bigStats))) 0)) = 5"
proof -
  have g: "fst (GetClientByID ''A'' (abcStore bigStats)) = Some 0"
    by (simp add: GetClientByID_def Let_def abc_get_A)
  have "heap (snd (GetClientByID ''A'' (abcStore bigStats))) 0
      = fillStats bigCounters (newClientInfo (conn ''A''))"
    by (simp add: GetClientByID_def Let_def abc_get_A abcStore_rest abcStore_heap
        fillClientInfo_def bigStats_def)
  then have "unat (Client.SubscriptionsTotal (heap (snd (GetClientByID ''A'' (abcStore bigStats))) 0)) = 5"
    by (simp add: fillStats_fields bigCounters_def)
  then show ?thesis using g by (simp add: abcStore_rest bigStats_def bigCounters_def)
qed

section \<open>Adding a client\<close>

lemma newClientInfo_fields:
  "Client.Username (newClientInfo client) = ClientOptions.Username (ClientOptions client)"
  "Client.KeepAlive (newClientInfo client) = ucast (ClientOptions.KeepAlive (ClientOptions client))"
  "Client.Version (newClientInfo client) = ucast (server_Client.Version client)"
  "Client.RemoteAddr (newClientInfo client) = server_Client.RemoteAddr client"
  "Client.LocalAddr (newClientInfo client) = server_Client.LocalAddr client"
  "Client.ConnectedAt (newClientInfo client)
     = Some (timestamppb_New (server_Client.ConnectedAt client))"
  "DisconnectedAt (newClientInfo client) = None"
  "Client.SessionExpiry (newClientInfo client) = ClientOptions.SessionExpiry (ClientOptions client)"
  "Client.MaxInflight (newClientInfo client) = ucast (ClientOptions.MaxInflight (ClientOptions client))"
  "MaxQueue (newClientInfo client) = ucast (ReceiveMax (ClientOptions client))"
  by (simp_all add: newClientInfo_def zeroClient_def Let_def)

lemma store_inv_pointers:
  assumes "store_inv s"
  shows "nextAddr s \<notin> snd ` set (rows (clientList s))"
proof
  assume "nextAddr s \<in> snd ` set (rows (clientList s))"
  then obtain e where mem: "(e, nextAddr s) \<in> set (rows (clientList s))" by auto
  then have "e \<in> set (handles (clientList s))" by (force simp: handles_def)
  then have "e \<in> ran (index (clientList s))" using assms by (simp add: store_inv_def qinv_def)
  then obtain k where "index (clientList s) k = Some e" by (auto simp: ran_def)
  then have "nextAddr s < nextAddr s" using assms mem by (auto simp: store_inv_def)
  then show False by simp
qed

lemma getClientByIDLocked_valueOf: "getClientByIDLocked clientID s = valueOf (clientList s) clientID"
  by (simp add: getClientByIDLocked_def valueOf_def split: option.splits)

text \<open>
  Claim C2, as the code has it. The record that \<open>newClientInfo\<close> builds takes client
  identifier, username and session expiry from the connection options unchanged, and
  version, keep-alive and maximum in-flight count with their numeric values; its
  \<open>MaxQueue\<close> is the numeric value of the option \<open>ReceiveMax\<close>, the receive maximum;
  the addresses and the connection time come from the connection, and \<open>DisconnectedAt\<close>
  is \<open>nil\<close>. In a store that satisfies the invariant, \<open>addClient\<close> puts this record
  into a cell that nothing in the list points to, leaves all other cells as they were, and
  indexes the pointer under the client identifier; the invariant holds afterwards.
\<close>

theorem addClient_projects_options:
  assumes "store_inv s"
  shows
    "Client.ClientId (newClientInfo client) = ClientID (ClientOptions client) \<and>
     Client.Username (newClientInfo client) = ClientOptions.Username (ClientOptions client) \<and>
     sint (Client.Version (newClientInfo client)) = uint (server_Client.Version client) \<and>
     sint (Client.KeepAlive (newClientInfo client))
       = uint (ClientOptions.KeepAlive (ClientOptions client)) \<and>
     Client.SessionExpiry (newClientInfo client)
       = ClientOptions.SessionExpiry (ClientOptions client) \<and>
     unat (Client.MaxInflight (newClientInfo client))
       = unat (ClientOptions.MaxInflight (ClientOptions client)) \<and>
     unat (MaxQueue (newClientInfo client)) = unat (ReceiveMax (ClientOptions client)) \<and>
     Client.RemoteAddr (newClientInfo client) = server_Client.RemoteAddr client \<and>
     Client.LocalAddr (newClientInfo client) = server_Client.LocalAddr client \<and>
     Client.ConnectedAt (newClientInfo client)
       = Some (timestamppb_New (server_Client.ConnectedAt client)) \<and>
     DisconnectedAt (newClientInfo client) = None \<and>
     getClientByIDLocked (ClientID (ClientOptions client)) (addClient client s)
       = Some (nextAddr s) \<and>
     heap (addClient client s) (nextAddr s) = newClientInfo client \<and>
     nextAddr s \<notin> snd ` set (rows (clientList s)) \<and>
     (\<forall>p. p \<noteq> nextAddr s \<longrightarrow> heap (addClient client s) p = heap s p) \<and>
     store_inv (addClient client s)"
proof -
  have qi: "qinv (clientList s)" using assms by (simp add: store_inv_def)
  have "getClientByIDLocked (ClientID (ClientOptions client)) (addClient client s)
       = Some (nextAddr s)"
    by (simp add: getClientByIDLocked_valueOf addClient_unfold valueOf_set [OF qi])
  moreover have "heap (addClient client s) (nextAddr s) = newClientInfo client"
    "\<forall>p. p \<noteq> nextAddr s \<longrightarrow> heap (addClient client s) p = heap s p"
    by (simp_all add: addClient_unfold)
  ultimately show ?thesis
    using store_inv_pointers [OF assms] store_inv_addClient [OF assms, of client]
    by (simp add: newClientInfo_fields ucast16_sint ucast8_sint ucast16_unat)
qed

lemma conn_ClientOptions:
  "ClientOptions (conn cid) = \<lparr>ClientID = cid, ClientOptions.Username = ''user'',
       ClientOptions.KeepAlive = 60, ClientOptions.SessionExpiry = 3600,
       ClientOptions.MaxInflight = 32, ReceiveMax = 7\<rparr>"
  by (simp add: conn_def)

theorem addClient_projects_options_witness:
  "store_inv (abcStore noStats) \<and>
   getClientByIDLocked ''D'' (addClient (conn ''D'') (abcStore noStats)) = Some 3 \<and>
   heap (addClient (conn ''D'') (abcStore noStats)) 3 = newClientInfo (conn ''D'') \<and>
   heap (addClient (conn ''D'') (abcStore noStats)) 0 = newClientInfo (conn ''A'') \<and>
   Client.ClientId (newClientInfo (conn ''D'')) = ''D'' \<and>
   sint (Client.KeepAlive (newClientInfo (conn ''D''))) = 60 \<and>
   unat (Client.MaxInflight (newClientInfo (conn ''D''))) = 32 \<and>
   unat (MaxQueue (newClientInfo (conn ''D''))) = 7"
  using addClient_projects_options [OF store_inv_abcStore [of noStats], of "conn ''D''"]
    store_inv_abcStore [of noStats]
  by (simp add: abcStore_rest abcStore_heap conn_ClientOptions)

text \<open>
  The claim as the spec words it takes \<open>MaxQueue\<close> from a maximum queued-message count
  option. The code takes it from the receive maximum: two connections that differ in
  nothing but \<open>ReceiveMax\<close>, 7 and 9, get the \<open>MaxQueue\<close> values 7 and 9.
\<close>

theorem newClientInfo_MaxQueue_counterexample:
  "ReceiveMax (ClientOptions (conn ''A'')) = 7 \<and>
   MaxQueue (newClientInfo (conn ''A'')) = 7 \<and>
   MaxQueue (newClientInfo
     ((conn ''A'')\<lparr>ClientOptions := (ClientOptions (conn ''A''))\<lparr>ReceiveMax := 9\<rparr>\<rparr>)) = 9"
  by (simp add: newClientInfo_fields conn_ClientOptions)

section \<open>Pages\<close>










section \<open>Subscription keys\<close>

lemma map_of_Remove: "h \<noteq> e \<Longrightarrow> map_of (Remove e rs) h = map_of rs h"
  by (induction rs) (auto simp: Remove_def)

lemma qinv_inj:
  "qinv q \<Longrightarrow> index q k = Some e \<Longrightarrow> index q k' = Some e \<Longrightarrow> k = k'"
  by (auto simp: qinv_def inj_on_def dom_def)

lemma valueOf_set_other:
  assumes inv: "qinv q" and ne: "k' \<noteq> k"
  shows "valueOf (quickList_set k v q) k' = valueOf q k'"
proof (cases "index q k'")
  case None
  then have "index (quickList_set k v q) k' = None"
    using ne by (cases "index q k") (simp_all add: set_present set_absent)
  then show ?thesis using None by (simp add: valueOf_def quickList_getByID_def)
next
  case (Some e')
  show ?thesis
  proof (cases "index q k")
    case None
    have "e' \<in> fst ` set (rows q)"
      using qinv_index_handles [OF inv Some] by (simp add: handles_def)
    then have "map_of (rows q) e' \<noteq> None" by (simp add: map_of_eq_None_iff)
    then obtain c where "map_of (rows q) e' = Some c" by auto
    then show ?thesis using None Some ne
      by (simp add: valueOf_def quickList_getByID_def elemValue_def set_absent map_add_def)
  next
    case (Some e)
    have "e' \<noteq> e" using qinv_inj [OF inv Some, of k'] \<open>index q k' = Some e'\<close> ne by auto
    then show ?thesis using Some \<open>index q k' = Some e'\<close>
      by (simp add: valueOf_def quickList_getByID_def elemValue_def set_present map_of_setValue)
  qed
qed

lemma valueOf_remove_other:
  assumes inv: "qinv q" and ne: "k' \<noteq> k"
  shows "valueOf (snd (quickList_remove k q)) k' = valueOf q k'"
proof (cases "index q k")
  case None
  then show ?thesis by (simp add: remove_absent)
next
  case (Some e)
  show ?thesis
  proof (cases "index q k'")
    case None
    then show ?thesis using Some ne
      by (simp add: valueOf_def quickList_getByID_def quickList_remove_def)
  next
    case (Some e')
    have "e' \<noteq> e" using qinv_inj [OF inv \<open>index q k = Some e\<close>, of k'] Some ne by auto
    then show ?thesis using Some \<open>index q k = Some e\<close> ne
      by (simp add: valueOf_def quickList_getByID_def quickList_remove_def elemValue_def
          map_of_Remove)
  qed
qed

lemma subscriptionKey_inj:
  assumes "CHR ''_'' \<notin> set c1" and "CHR ''_'' \<notin> set c2"
    and "subscriptionKey c1 t1 = subscriptionKey c2 t2"
  shows "c1 = c2 \<and> t1 = t2"
proof -
  have tw: "takeWhile (\<lambda>x. x \<noteq> CHR ''_'') (c @ CHR ''_'' # t) = c" if "CHR ''_'' \<notin> set c" for c t
    using that by (induction c) auto
  have "takeWhile (\<lambda>x. x \<noteq> CHR ''_'') (c1 @ CHR ''_'' # t1)
      = takeWhile (\<lambda>x. x \<noteq> CHR ''_'') (c2 @ CHR ''_'' # t2)"
    using assms(3) by (simp add: subscriptionKey_def)
  then have "c1 = c2" using tw assms(1,2) by simp
  then show ?thesis using assms(3) by (simp add: subscriptionKey_def)
qed


lemma index_set_other: "k' \<noteq> k \<Longrightarrow> index (quickList_set k v q) k' = index q k'"
  by (cases "index q k") (simp_all add: set_present set_absent)

lemma valueOf_remove_same: "valueOf (snd (quickList_remove k q)) k = None"
  by (simp add: valueOf_def quickList_getByID_def quickList_remove_def Let_def)

lemma subscriptions_addSubscription:
  "subscriptions (addSubscription c sub s) =
     quickList_set (subscriptionKey c (GetFullTopicName sub)) (subInfo c sub) (subscriptions s)"
  by (simp add: addSubscription_def Let_def)

lemma subscriptions_removeSubscription:
  "subscriptions (removeSubscription c t s) =
     snd (quickList_remove (subscriptionKey c t) (subscriptions s))"
  by (simp add: removeSubscription_def)

lemma set_twice:
  assumes inv: "qinv q"
  shows "handles (quickList_set k v' (quickList_set k v q)) = handles (quickList_set k v q) \<and>
     length (entriesOf (quickList_set k v' (quickList_set k v q)) k) = 1 \<and>
     valueOf (quickList_set k v' (quickList_set k v q)) k = Some v'"
proof -
  let ?q1 = "quickList_set k v q"
  let ?q2 = "quickList_set k v' ?q1"
  have i1: "qinv ?q1" using inv by (rule qinv_set)
  have i2: "qinv ?q2" using i1 by (rule qinv_set)
  obtain e where e: "index ?q1 k = Some e" using set_index_key [of k v q] by auto
  have fr: "handles ?q2 = handles ?q1" "index ?q2 = index ?q1"
    using set_present_frame [OF e, of v'] by simp_all
  have "index ?q2 k = Some e" using fr e by simp
  then have "length (entriesOf ?q2 k) = 1" using i2 by (rule entriesOf_eq1 [rotated])
  then show ?thesis using fr(1) valueOf_set [OF i1, of k v'] by simp
qed

lemma set_two_keys:
  assumes inv: "qinv q" and ne: "k1 \<noteq> k2"
  shows "valueOf (quickList_set k2 v2 (quickList_set k1 v1 q)) k1 = Some v1 \<and>
     valueOf (quickList_set k2 v2 (quickList_set k1 v1 q)) k2 = Some v2 \<and>
     index (quickList_set k2 v2 (quickList_set k1 v1 q)) k1
       \<noteq> index (quickList_set k2 v2 (quickList_set k1 v1 q)) k2 \<and>
     length (entriesOf (quickList_set k2 v2 (quickList_set k1 v1 q)) k1) = 1 \<and>
     length (entriesOf (quickList_set k2 v2 (quickList_set k1 v1 q)) k2) = 1 \<and>
     valueOf (snd (quickList_remove k2 (quickList_set k2 v2 (quickList_set k1 v1 q)))) k1
       = Some v1 \<and>
     valueOf (snd (quickList_remove k2 (quickList_set k2 v2 (quickList_set k1 v1 q)))) k2
       = None"
proof -
  let ?q1 = "quickList_set k1 v1 q"
  let ?q2 = "quickList_set k2 v2 ?q1"
  have i1: "qinv ?q1" using inv by (rule qinv_set)
  have i2: "qinv ?q2" using i1 by (rule qinv_set)
  have v1: "valueOf ?q2 k1 = Some v1"
    using valueOf_set_other [OF i1, of k1 k2 v2] ne valueOf_set [OF inv, of k1 v1] by simp
  have v2: "valueOf ?q2 k2 = Some v2" using i1 by (rule valueOf_set)
  obtain e1 where e1: "index ?q1 k1 = Some e1" using set_index_key [of k1 v1 q] by auto
  then have e1': "index ?q2 k1 = Some e1" using ne by (simp add: index_set_other)
  obtain e2 where e2: "index ?q2 k2 = Some e2" using set_index_key [of k2 v2 ?q1] by auto
  have "e1 \<noteq> e2" using qinv_inj [OF i2 e1', of k2] e2 ne by auto
  then have d: "index ?q2 k1 \<noteq> index ?q2 k2" using e1' e2 by simp
  have n1: "length (entriesOf ?q2 k1) = 1" using i2 e1' by (rule entriesOf_eq1)
  have n2: "length (entriesOf ?q2 k2) = 1" using i2 e2 by (rule entriesOf_eq1)
  have r1: "valueOf (snd (quickList_remove k2 ?q2)) k1 = Some v1"
    using valueOf_remove_other [OF i2, of k1 k2] ne v1 by simp
  show ?thesis using v1 v2 d n1 n2 r1 valueOf_remove_same [of k2 ?q2] by simp
qed

text \<open>
  Claim C1, as the code has it. The key of a subscription record is the string
  \<open>clientID + "_" + topic\<close>. In a store whose subscription list satisfies the list
  invariant, adding a pair whose key string was added before, such as the same client and
  topic again, keeps the order of the list, leaves exactly one element under the key, and
  that element holds the record of the second call.
  Two pairs whose key strings differ are held in two different elements, each with its own
  record, and removing one leaves the other's record in place. The key strings of two
  different pairs differ whenever neither client identifier contains the character
  \<open>_\<close>.
\<close>

theorem subscriptions_one_record_per_key:
  assumes "qinv (subscriptions s)"
  shows
    "(subscriptionKey c' (GetFullTopicName sub') = subscriptionKey c (GetFullTopicName sub) \<longrightarrow>
        handles (subscriptions (addSubscription c' sub' (addSubscription c sub s)))
          = handles (subscriptions (addSubscription c sub s)) \<and>
        length (entriesOf (subscriptions (addSubscription c' sub' (addSubscription c sub s)))
          (subscriptionKey c (GetFullTopicName sub))) = 1 \<and>
        valueOf (subscriptions (addSubscription c' sub' (addSubscription c sub s)))
          (subscriptionKey c (GetFullTopicName sub)) = Some (subInfo c' sub')) \<and>
     (subscriptionKey c1 (GetFullTopicName sub1) \<noteq> subscriptionKey c2 (GetFullTopicName sub2) \<longrightarrow>
        valueOf (subscriptions (addSubscription c2 sub2 (addSubscription c1 sub1 s)))
          (subscriptionKey c1 (GetFullTopicName sub1)) = Some (subInfo c1 sub1) \<and>
        valueOf (subscriptions (addSubscription c2 sub2 (addSubscription c1 sub1 s)))
          (subscriptionKey c2 (GetFullTopicName sub2)) = Some (subInfo c2 sub2) \<and>
        index (subscriptions (addSubscription c2 sub2 (addSubscription c1 sub1 s)))
            (subscriptionKey c1 (GetFullTopicName sub1))
          \<noteq> index (subscriptions (addSubscription c2 sub2 (addSubscription c1 sub1 s)))
            (subscriptionKey c2 (GetFullTopicName sub2)) \<and>
        length (entriesOf (subscriptions (addSubscription c2 sub2 (addSubscription c1 sub1 s)))
          (subscriptionKey c1 (GetFullTopicName sub1))) = 1 \<and>
        length (entriesOf (subscriptions (addSubscription c2 sub2 (addSubscription c1 sub1 s)))
          (subscriptionKey c2 (GetFullTopicName sub2))) = 1 \<and>
        valueOf (subscriptions (removeSubscription c2 (GetFullTopicName sub2)
            (addSubscription c2 sub2 (addSubscription c1 sub1 s))))
          (subscriptionKey c1 (GetFullTopicName sub1)) = Some (subInfo c1 sub1) \<and>
        valueOf (subscriptions (removeSubscription c2 (GetFullTopicName sub2)
            (addSubscription c2 sub2 (addSubscription c1 sub1 s))))
          (subscriptionKey c2 (GetFullTopicName sub2)) = None) \<and>
     (CHR ''_'' \<notin> set d1 \<and> CHR ''_'' \<notin> set d2 \<and> (d1, t1) \<noteq> (d2, t2) \<longrightarrow>
        subscriptionKey d1 t1 \<noteq> subscriptionKey d2 t2)"
proof (intro conjI)
  show "subscriptionKey c' (GetFullTopicName sub') = subscriptionKey c (GetFullTopicName sub) \<longrightarrow>
        handles (subscriptions (addSubscription c' sub' (addSubscription c sub s)))
          = handles (subscriptions (addSubscription c sub s)) \<and>
        length (entriesOf (subscriptions (addSubscription c' sub' (addSubscription c sub s)))
          (subscriptionKey c (GetFullTopicName sub))) = 1 \<and>
        valueOf (subscriptions (addSubscription c' sub' (addSubscription c sub s)))
          (subscriptionKey c (GetFullTopicName sub)) = Some (subInfo c' sub')"
    using set_twice [OF assms, of "subscriptionKey c (GetFullTopicName sub)" "subInfo c' sub'"
        "subInfo c sub"]
    by (simp add: subscriptions_addSubscription)
next
  show "subscriptionKey c1 (GetFullTopicName sub1) \<noteq> subscriptionKey c2 (GetFullTopicName sub2) \<longrightarrow>
        valueOf (subscriptions (addSubscription c2 sub2 (addSubscription c1 sub1 s)))
          (subscriptionKey c1 (GetFullTopicName sub1)) = Some (subInfo c1 sub1) \<and>
        valueOf (subscriptions (addSubscription c2 sub2 (addSubscription c1 sub1 s)))
          (subscriptionKey c2 (GetFullTopicName sub2)) = Some (subInfo c2 sub2) \<and>
        index (subscriptions (addSubscription c2 sub2 (addSubscription c1 sub1 s)))
            (subscriptionKey c1 (GetFullTopicName sub1))
          \<noteq> index (subscriptions (addSubscription c2 sub2 (addSubscription c1 sub1 s)))
            (subscriptionKey c2 (GetFullTopicName sub2)) \<and>
        length (entriesOf (subscriptions (addSubscription c2 sub2 (addSubscription c1 sub1 s)))
          (subscriptionKey c1 (GetFullTopicName sub1))) = 1 \<and>
        length (entriesOf (subscriptions (addSubscription c2 sub2 (addSubscription c1 sub1 s)))
          (subscriptionKey c2 (GetFullTopicName sub2))) = 1 \<and>
        valueOf (subscriptions (removeSubscription c2 (GetFullTopicName sub2)
            (addSubscription c2 sub2 (addSubscription c1 sub1 s))))
          (subscriptionKey c1 (GetFullTopicName sub1)) = Some (subInfo c1 sub1) \<and>
        valueOf (subscriptions (removeSubscription c2 (GetFullTopicName sub2)
            (addSubscription c2 sub2 (addSubscription c1 sub1 s))))
          (subscriptionKey c2 (GetFullTopicName sub2)) = None"
    using set_two_keys [OF assms, of "subscriptionKey c1 (GetFullTopicName sub1)"
        "subscriptionKey c2 (GetFullTopicName sub2)" "subInfo c2 sub2" "subInfo c1 sub1"]
    by (simp only: subscriptions_addSubscription subscriptions_removeSubscription) blast
next
  show "CHR ''_'' \<notin> set d1 \<and> CHR ''_'' \<notin> set d2 \<and> (d1, t1) \<noteq> (d2, t2) \<longrightarrow>
        subscriptionKey d1 t1 \<noteq> subscriptionKey d2 t2"
    using subscriptionKey_inj [of d1 d2 t1 t2] by auto
qed

lemma topic_name [simp]: "GetFullTopicName (topic t) = t"
  by (simp add: topic_def)

lemma qinv_newStore_subscriptions: "qinv (subscriptions (newStore sr))"
  by (simp add: newStore_def qinv_new)

theorem subscriptions_one_record_per_key_witness:
  "qinv (subscriptions (newStore noStats)) \<and>
   subscriptionKey ''c1'' (GetFullTopicName ((topic ''sensors/+'')\<lparr>QoS := 2\<rparr>))
     = subscriptionKey ''c1'' (GetFullTopicName (topic ''sensors/+'')) \<and>
   length (entriesOf (subscriptions (addSubscription ''c1'' ((topic ''sensors/+'')\<lparr>QoS := 2\<rparr>)
      (addSubscription ''c1'' (topic ''sensors/+'') (newStore noStats))))
      (subscriptionKey ''c1'' ''sensors/+'')) = 1 \<and>
   rows (subscriptions (addSubscription ''c1'' ((topic ''sensors/+'')\<lparr>QoS := 2\<rparr>)
      (addSubscription ''c1'' (topic ''sensors/+'') (newStore noStats))))
     = [(0, subInfo ''c1'' ((topic ''sensors/+'')\<lparr>QoS := 2\<rparr>))] \<and>
   subscriptionKey ''c1'' (GetFullTopicName (topic ''a''))
     \<noteq> subscriptionKey ''c2'' (GetFullTopicName (topic ''b'')) \<and>
   valueOf (subscriptions (removeSubscription ''c2'' ''b''
       (addSubscription ''c2'' (topic ''b'') (addSubscription ''c1'' (topic ''a'') (newStore noStats)))))
     (subscriptionKey ''c1'' ''a'') = Some (subInfo ''c1'' (topic ''a'')) \<and>
   CHR ''_'' \<notin> set ''c1'' \<and> CHR ''_'' \<notin> set ''c2'' \<and> (''c1'', ''a'') \<noteq> (''c2'', ''b'')"
proof -
  have k: "subscriptionKey ''c1'' ''a'' \<noteq> subscriptionKey ''c2'' ''b''"
    by (simp add: subscriptionKey_def)
  have r: "rows (subscriptions (addSubscription ''c1'' ((topic ''sensors/+'')\<lparr>QoS := 2\<rparr>)
      (addSubscription ''c1'' (topic ''sensors/+'') (newStore noStats))))
     = [(0, subInfo ''c1'' ((topic ''sensors/+'')\<lparr>QoS := 2\<rparr>))]"
    by (simp add: subscriptions_addSubscription newStore_def newQuickList_def quickList_set_def
        PushBack_def)
  show ?thesis
    using subscriptions_one_record_per_key [OF qinv_newStore_subscriptions [of noStats],
        of "''c1''" "(topic ''sensors/+'')\<lparr>QoS := 2\<rparr>" "''c1''" "topic ''sensors/+''"
           "''c1''" "topic ''a''" "''c2''" "topic ''b''" "''c1''" "''c2''" "''a''" "''b''"]
      k r qinv_newStore_subscriptions [of noStats]
    by simp
qed

text \<open>
  The claim as the spec words it fails for pairs whose key strings coincide: client
  \<open>a_b\<close> with topic \<open>c\<close> and client \<open>a\<close> with topic \<open>b_c\<close> are different pairs
  with the one key \<open>a_b_c\<close>. Adding both leaves a single record, which is the second
  pair's, and removing the second pair after only the first was added detaches the first
  pair's record.
\<close>

theorem subscription_key_collision_counterexample:
  "(''a_b'', ''c'') \<noteq> (''a'', ''b_c'') \<and>
   rows (subscriptions (addSubscription ''a'' (topic ''b_c'')
      (addSubscription ''a_b'' (topic ''c'') (newStore noStats))))
     = [(0, subInfo ''a'' (topic ''b_c''))] \<and>
   rows (subscriptions (addSubscription ''a_b'' (topic ''c'') (newStore noStats)))
     = [(0, subInfo ''a_b'' (topic ''c''))] \<and>
   rows (subscriptions (removeSubscription ''a'' ''b_c''
      (addSubscription ''a_b'' (topic ''c'') (newStore noStats)))) = []"
  by (simp add: subscriptions_addSubscription subscriptions_removeSubscription newStore_def
      newQuickList_def quickList_set_def PushBack_def subscriptionKey_def
      quickList_remove_def Remove_def)

section \<open>The invariants hold in every state the operations build\<close>

text \<open>
  \<open>newStore\<close> establishes the store invariant (and the list invariant of the
  subscriptions), \<open>addClient\<close> keeps it, and so does every other operation.
\<close>

lemma store_inv_heap:
  assumes "store_inv s" and "\<And>p. Client.ClientId (h p) = Client.ClientId (heap s p)"
  shows "store_inv (s\<lparr>heap := h\<rparr>)"
  using assms by (simp add: store_inv_def)

lemma ClientId_withoutStats: "Client.ClientId (withoutStats c) = Client.ClientId c"
  by (simp add: withoutStats_def)

lemma store_inv_GetClientByID:
  assumes "store_inv s"
  shows "store_inv (snd (GetClientByID clientID s))"
  using store_inv_heap [OF assms, of "fillClientInfo (getClientByIDLocked clientID s)
      (statsReader s) (heap s)"]
  by (simp add: GetClientByID_def Let_def fill_ClientId)

lemma store_inv_GetClients:
  assumes "store_inv s"
  shows "store_inv (snd (GetClients page pageSize s))"
proof -
  have "Client.ClientId (heap (snd (GetClients page pageSize s)) p)
      = Client.ClientId (heap s p)" for p
    using GetClients_heap [of page pageSize s]
    by (metis ClientId_withoutStats)
  then have "store_inv (s\<lparr>heap := heap (snd (GetClients page pageSize s))\<rparr>)"
    using assms by (intro store_inv_heap) simp_all
  then show ?thesis by (simp add: GetClients_unfold)
qed

lemma store_inv_setClientDisconnected:
  assumes "store_inv s"
  shows "store_inv (setClientDisconnected clientID now s)"
proof (cases "quickList_getByID clientID (clientList s)")
  case None
  then show ?thesis using assms by (simp add: setClientDisconnected_def)
next
  case (Some l)
  show ?thesis
  proof (cases "elemValue (clientList s) l")
    case None
    then show ?thesis using Some assms by (simp add: setClientDisconnected_def)
  next
    case (Some c)
    have "store_inv (s\<lparr>heap := (heap s)(c := (heap s c)\<lparr>DisconnectedAt := Some now\<rparr>)\<rparr>)"
      using assms by (intro store_inv_heap) simp_all
    then show ?thesis using Some \<open>quickList_getByID clientID (clientList s) = Some l\<close>
      by (simp add: setClientDisconnected_def)
  qed
qed

lemma set_Remove: "set (Remove e rs) \<subseteq> set rs"
  by (auto simp: Remove_def)

lemma store_inv_removeClient:
  assumes "store_inv s"
  shows "store_inv (removeClient clientID s)"
proof -
  let ?q = "clientList s"
  let ?q' = "snd (quickList_remove clientID ?q)"
  have inv: "qinv ?q"
    and old: "\<And>k e c. index ?q k = Some e \<Longrightarrow> (e, c) \<in> set (rows ?q)
               \<Longrightarrow> c < nextAddr s \<and> Client.ClientId (heap s c) = k"
    using assms by (auto simp: store_inv_def)
  have inv': "qinv ?q'" using inv by (rule qinv_remove)
  have sub: "set (rows ?q') \<subseteq> set (rows ?q)"
    using set_Remove by (auto simp: quickList_remove_def Let_def split: option.splits)
  have ix: "index ?q k = Some e" if "index ?q' k = Some e" for k e
    using that by (auto simp: quickList_remove_def Let_def split: if_splits option.splits)
  have "store_inv (s\<lparr>clientList := ?q'\<rparr>)"
    unfolding store_inv_def
  proof (rule conjI)
    show "qinv (clientList (s\<lparr>clientList := ?q'\<rparr>))" using inv' by simp
  next
    show "\<forall>k e c. index (clientList (s\<lparr>clientList := ?q'\<rparr>)) k = Some e \<and>
        (e, c) \<in> set (rows (clientList (s\<lparr>clientList := ?q'\<rparr>)))
        \<longrightarrow> c < nextAddr (s\<lparr>clientList := ?q'\<rparr>) \<and>
            Client.ClientId (heap (s\<lparr>clientList := ?q'\<rparr>) c) = k"
    proof (intro allI impI)
      fix k e c
      assume "index (clientList (s\<lparr>clientList := ?q'\<rparr>)) k = Some e \<and>
        (e, c) \<in> set (rows (clientList (s\<lparr>clientList := ?q'\<rparr>)))"
      then have "index ?q k = Some e" "(e, c) \<in> set (rows ?q)" using ix sub by auto
      from old [OF this]
      show "c < nextAddr (s\<lparr>clientList := ?q'\<rparr>) \<and>
            Client.ClientId (heap (s\<lparr>clientList := ?q'\<rparr>) c) = k" by simp
    qed
  qed
  then show ?thesis by (simp add: removeClient_def)
qed

lemma store_inv_addSubscription: "store_inv s \<Longrightarrow> store_inv (addSubscription c sub s)"
  by (simp add: store_inv_def addSubscription_def Let_def)

lemma store_inv_removeSubscription: "store_inv s \<Longrightarrow> store_inv (removeSubscription c t s)"
  by (simp add: store_inv_def removeSubscription_def)

lemma qinv_addSubscription:
  "qinv (subscriptions s) \<Longrightarrow> qinv (subscriptions (addSubscription c sub s))"
  by (simp add: subscriptions_addSubscription qinv_set)

lemma qinv_removeSubscription:
  "qinv (subscriptions s) \<Longrightarrow> qinv (subscriptions (removeSubscription c t s))"
  by (simp add: subscriptions_removeSubscription qinv_remove)

section \<open>A store with \<open>2^32\<close> clients\<close>

lemma replicate_x_neq: "m \<noteq> n \<Longrightarrow> replicate m CHR ''x'' \<noteq> replicate n CHR ''x''"
  by (metis length_replicate)

lemma manyClients_list:
  "length (rows (clientList (manyClients n))) = n \<and>
   (\<forall>m \<ge> n. index (clientList (manyClients n)) (replicate m CHR ''x'') = None)"
proof (induction n)
  case 0
  then show ?case by (simp add: newStore_def newQuickList_def)
next
  case (Suc n)
  let ?q = "clientList (manyClients n)"
  have absent: "index ?q (replicate n CHR ''x'') = None" using Suc by simp
  have q': "clientList (addClient (conn (replicate n CHR ''x'')) (manyClients n)) =
      ?q\<lparr>rows := rows ?q @ [(allocated ?q, nextAddr (manyClients n))],
        allocated := Suc (allocated ?q),
        index := (index ?q)(replicate n CHR ''x'' \<mapsto> allocated ?q)\<rparr>"
    by (simp add: addClient_unfold set_absent [OF absent])
  have "index (clientList (manyClients (Suc n))) (replicate m CHR ''x'') = None"
    if "Suc n \<le> m" for m
  proof -
    have "replicate m CHR ''x'' \<noteq> replicate n CHR ''x''"
      using that by (intro replicate_x_neq) simp
    then show ?thesis using Suc that by (simp add: q')
  qed
  then show ?case using Suc by (simp add: q')
qed

lemma store_inv_manyClients: "store_inv (manyClients n)"
  by (induction n) (simp_all add: store_inv_newStore store_inv_addClient)

text \<open>
  The claim as the spec words it fails for a registry of \<open>2^32\<close> entries: after
  \<open>2^32\<close> clients with different identifiers connected, the store satisfies the
  invariant, the list holds \<open>2^32\<close> entries, and \<open>GetClients\<close> with page 0 returns the
  total 0.
\<close>

theorem page_zero_total_counterexample:
  "store_inv (manyClients 4294967296) \<and>
   length (rows (clientList (manyClients 4294967296))) = 4294967296 \<and>
   GetClients 0 10 (manyClients 4294967296) = (([], 0, None), manyClients 4294967296)"
proof -
  have len: "length (rows (clientList (manyClients 4294967296))) = 4294967296"
    using manyClients_list [of 4294967296] by blast
  have "(word_of_int (Len (clientList (manyClients 4294967296))) :: uint32) = 0"
    by (simp add: Len_def len)
  then show ?thesis
    using store_inv_manyClients [of 4294967296] len
    by (simp add: GetClients_page0)
qed

end
